theory Spec2Isabelle
  imports Complex_Main "HOL-Library.Word" "HOL-Library.List_Lexorder" "HOL-Library.Char_ord"
    "HOL-Library.Log_Nat"
begin

unbundle bit_operations_syntax

section \<open>The environment of the tools\<close>

text \<open>
  The three tools (FaceRecognitionImage, Name2Protraits, FaceCollection) share the
  functions \<open>traverseDirectory\<close> and \<open>loadFaceData\<close>, copied verbatim from one
  source file to the next. They read the file system through \<open>opendir\<close>/\<open>readdir\<close>,
  \<open>stat\<close>, \<open>access\<close> and OpenCV's \<open>imread\<close>, and write through \<open>ofstream\<close>. A file
  system is a snapshot of what these calls answer.
\<close>

type_synonym mode_t = "32 word"

text \<open>
  \<open>cv::Mat\<close>: only the dimensions are kept, the pixels play no part in what follows.
  A matrix with \<open>rows * cols = 0\<close> is what \<open>imread\<close> returns for a file it cannot decode.
\<close>

record Mat =
  rows :: int
  cols :: int

record filesystem =
  fs_access :: "string \<Rightarrow> bool"
  fs_opendir :: "string \<Rightarrow> string list option"
  fs_stat :: "string \<Rightarrow> mode_t option"
  fs_imread :: "string \<Rightarrow> Mat"
  fs_ofstream_open :: "string \<Rightarrow> bool"

text \<open>
  \<open>fs_access p\<close> is \<open>access(p, 0) == 0\<close>; \<open>fs_opendir p\<close> is \<open>None\<close> when
  \<open>opendir\<close> returns \<open>NULL\<close>, and otherwise the names \<open>readdir\<close> hands out, in its
  order, with \<open>.\<close>, \<open>..\<close> and the hidden entries among them; \<open>fs_stat p\<close> is \<open>None\<close>
  when \<open>stat\<close> returns \<open>-1\<close> and otherwise the \<open>st_mode\<close> it stores;
  \<open>fs_imread p\<close> is \<open>imread(p, 0)\<close>, the file decoded to one grey channel;
  \<open>fs_ofstream_open p\<close> says whether an \<open>ofstream\<close> opened on \<open>p\<close> is open.
\<close>

subsection \<open>The macros of \<open>sys/stat.h\<close>\<close>

definition S_IFMT :: mode_t where "S_IFMT = 0xF000"
definition S_IFREG :: mode_t where "S_IFREG = 0x8000"
definition S_IFDIR :: mode_t where "S_IFDIR = 0x4000"

definition S_ISREG :: "mode_t \<Rightarrow> bool" where
  "S_ISREG m = (m AND S_IFMT = S_IFREG)"

definition S_ISDIR :: "mode_t \<Rightarrow> bool" where
  "S_ISDIR m = (m AND S_IFMT = S_IFDIR)"

section \<open>The directory catalog: \<open>traverseDirectory\<close>\<close>

datatype DirectoryItemType = DIRITEM_OTHER | DIRITEM_FILE | DIRITEM_DIR

text \<open>The test \<open>dirp->d_name[0] == '.'\<close>; the first byte of an empty name is the terminator.\<close>

fun is_hidden :: "string \<Rightarrow> bool" where
  "is_hidden [] = False"
| "is_hidden (c # cs) = (c = CHR ''.'')"

text \<open>The two assignments to \<open>itemType\<close>, in the order of the source.\<close>

definition itemType :: "mode_t \<Rightarrow> DirectoryItemType" where
  "itemType m =
     (let t0 = DIRITEM_OTHER;
          t1 = (if S_ISREG m then DIRITEM_FILE else t0);
          t2 = (if S_ISDIR m then DIRITEM_DIR else t1)
      in t2)"

text \<open>
  The \<open>while ((dirp = readdir(dp)) != NULL)\<close> loop over the entries still to be read.
  The result is the return value together with the two output vectors.
\<close>

fun readdir_loop ::
  "filesystem \<Rightarrow> string \<Rightarrow> string list \<Rightarrow> string list \<Rightarrow> DirectoryItemType list
     \<Rightarrow> int \<times> string list \<times> DirectoryItemType list" where
  "readdir_loop fs dirpath [] items types = (0, items, types)"
| "readdir_loop fs dirpath (d_name # rest) items types =
     (if is_hidden d_name then readdir_loop fs dirpath rest items types
      else case fs_stat fs (dirpath @ ''/'' @ d_name) of
             None \<Rightarrow> (- 1, items, types)
           | Some st_mode \<Rightarrow>
               readdir_loop fs dirpath rest (items @ [d_name]) (types @ [itemType st_mode]))"

text \<open>
  \<open>items\<close> and \<open>types\<close> are reference parameters: the function receives what the
  caller's vectors hold and clears them before anything else.
\<close>

definition traverseDirectory ::
  "filesystem \<Rightarrow> string \<Rightarrow> string list \<Rightarrow> DirectoryItemType list
     \<Rightarrow> int \<times> string list \<times> DirectoryItemType list" where
  "traverseDirectory fs dirpath items types =
     (let items1 = []; types1 = [] in
      case fs_opendir fs dirpath of
        None \<Rightarrow> (- 1, items1, types1)
      | Some entries \<Rightarrow> readdir_loop fs dirpath entries items1 types1)"

text \<open>What the catalog lists when nothing fails: the entries that are not hidden.\<close>

definition visible :: "string list \<Rightarrow> string list" where
  "visible entries = filter (\<lambda>d. \<not> is_hidden d) entries"

text \<open>
  Auxiliary notions for stating what a traversal returns: whether \<open>stat\<close> succeeds on
  an entry of a directory, the classification of that entry, and the entries the loop
  reaches (the visible ones before the first whose \<open>stat\<close> fails).
\<close>

definition stat_ok :: "filesystem \<Rightarrow> string \<Rightarrow> string \<Rightarrow> bool" where
  "stat_ok fs dirpath d = (fs_stat fs (dirpath @ ''/'' @ d) \<noteq> None)"

definition type_at :: "filesystem \<Rightarrow> string \<Rightarrow> string \<Rightarrow> DirectoryItemType" where
  "type_at fs dirpath d = itemType (the (fs_stat fs (dirpath @ ''/'' @ d)))"

definition listed :: "filesystem \<Rightarrow> string \<Rightarrow> string list \<Rightarrow> string list" where
  "listed fs dirpath entries = takeWhile (stat_ok fs dirpath) (visible entries)"

section \<open>The library the tools are written against\<close>

subsection \<open>\<open>std::map\<close>\<close>

text \<open>
  A \<open>std::map\<close> holds one value per key and is iterated in ascending key order: an
  association list kept sorted by key. \<open>insert\<close> leaves the map alone when the key is
  there already.
\<close>

type_synonym ('k, 'v) std_map = "('k \<times> 'v) list"

definition map_find :: "('k, 'v) std_map \<Rightarrow> 'k \<Rightarrow> 'v option" where
  "map_find m k = map_of m k"

definition map_insert :: "'k::linorder \<times> 'v \<Rightarrow> ('k, 'v) std_map \<Rightarrow> ('k, 'v) std_map" where
  "map_insert kv m =
     (case map_find m (fst kv) of
        Some v \<Rightarrow> m
      | None \<Rightarrow> insort_key fst kv m)"

text \<open>
  \<open>operator[]\<close> on a \<open>map<int, string>\<close>: a key that is missing is inserted with a
  value-initialised string, and that (empty) string is the result.
\<close>

definition map_subscript ::
  "('k::linorder, string) std_map \<Rightarrow> 'k \<Rightarrow> string \<times> ('k, string) std_map" where
  "map_subscript m k =
     (case map_find m k of
        Some v \<Rightarrow> (v, m)
      | None \<Rightarrow> ([], map_insert (k, []) m))"

subsection \<open>Stream formatting and extraction\<close>

definition dquote :: char where "dquote = CHR 0x22"

definition endl :: string where "endl = [CHR 0x0A]"

text \<open>\<open>isspace\<close> in the classic locale: the space and the bytes 9 to 13.\<close>

definition isspace :: "char \<Rightarrow> bool" where
  "isspace c = (let n = (of_char c :: nat) in n = 32 \<or> (9 \<le> n \<and> n \<le> 13))"

text \<open>
  \<open>stream >> str\<close> for a \<open>std::string\<close>: leading whitespace is skipped, then
  characters are taken up to the next whitespace or the end of the stream. When
  nothing is left to take the string stays empty.
\<close>

definition first_token :: "string \<Rightarrow> string" where
  "first_token ss = takeWhile (\<lambda>c. \<not> isspace c) (dropWhile isspace ss)"

text \<open>\<open>stream << n\<close> for an \<open>int\<close>: decimal digits, with a minus sign below zero.\<close>

function show_digits :: "int \<Rightarrow> string" where
  "show_digits n =
     (if n < 10 then [''0123456789'' ! nat n]
      else show_digits (n div 10) @ [''0123456789'' ! nat (n mod 10)])"
  by pat_completeness auto
termination
  by (relation "measure nat") auto

definition show_int :: "int \<Rightarrow> string" where
  "show_int i = (if i < 0 then ''-'' @ show_digits (- i) else show_digits i)"

subsection \<open>OpenCV\<close>

text \<open>\<open>cv::Rect\<close>, that is \<open>Rect_<int>\<close>, with \<open>tl()\<close> and \<open>size()\<close>.\<close>

record Rect =
  rect_x :: int
  rect_y :: int
  rect_width :: int
  rect_height :: int

definition tl_pt :: "Rect \<Rightarrow> int \<times> int" where
  "tl_pt r = (rect_x r, rect_y r)"

definition size_of :: "Rect \<Rightarrow> int \<times> int" where
  "size_of r = (rect_width r, rect_height r)"

text \<open>
  \<open>cv::resize(src, dst, Size(w, h), 1.0, 1.0, INTER_CUBIC)\<close> in OpenCV 2.4: it asserts
  that the source has a positive area and raises \<open>cv::Exception\<close> otherwise; the
  destination has the requested size, or the size of the source (scale factors 1.0)
  when the requested area is zero.
\<close>

definition resize :: "Mat \<Rightarrow> int \<times> int \<Rightarrow> string + Mat" where
  "resize src dsize =
     (if \<not> 0 < rows src * cols src then Inl ''ssize.area() > 0''
      else if fst dsize * snd dsize = 0 then Inr src
      else Inr \<lparr>rows = snd dsize, cols = fst dsize\<rparr>)"

text \<open>\<open>m(roi)\<close>: the region of interest must lie within the matrix.\<close>

definition inside :: "Rect \<Rightarrow> Mat \<Rightarrow> bool" where
  "inside roi m =
     (0 \<le> rect_x roi \<and> 0 \<le> rect_width roi \<and> rect_x roi + rect_width roi \<le> cols m \<and>
      0 \<le> rect_y roi \<and> 0 \<le> rect_height roi \<and> rect_y roi + rect_height roi \<le> rows m)"

definition crop :: "Mat \<Rightarrow> Rect \<Rightarrow> string + Mat" where
  "crop m roi =
     (if inside roi m then Inr \<lparr>rows = rect_height roi, cols = rect_width roi\<rparr>
      else Inl ''roi out of range'')"

text \<open>\<open>cvtColor(src, dst, CV_BGR2GRAY)\<close> keeps the size and rejects an empty source.\<close>

definition cvtColor :: "Mat \<Rightarrow> string + Mat" where
  "cvtColor src = (if 0 < rows src * cols src then Inr src else Inl ''scn == 3 || scn == 4'')"

text \<open>
  The recogniser and the detector are black boxes: \<open>cv_train\<close> is
  \<open>createFisherFaceRecognizer()\<close> followed by \<open>train\<close> (\<open>None\<close> when \<open>train\<close> raises),
  \<open>cv_predict\<close> is \<open>predict\<close> on a trained model, giving the label and the confidence,
  \<open>cv_detect\<close> is \<open>detectMultiScale\<close> of the cascade loaded from the given path, and
  \<open>cv_show\<close> is \<open>stream << confidence\<close>. The confidence is a \<open>double\<close>; it is only
  passed along, so its type is left open.
\<close>

record ('m, 'c) opencv =
  cv_train :: "Mat list \<Rightarrow> int list \<Rightarrow> 'm option"
  cv_predict :: "'m \<Rightarrow> Mat \<Rightarrow> int \<times> 'c"
  cv_detect :: "string \<Rightarrow> Mat \<Rightarrow> Rect list"
  cv_show :: "'c \<Rightarrow> string"

definition STD_PROTRAIT_SIZE :: int where "STD_PROTRAIT_SIZE = 256"
definition STD_FACE_REC_SIZE :: int where "STD_FACE_REC_SIZE = 64"
definition STD_DETECT_FRAME_WIDTH :: int where "STD_DETECT_FRAME_WIDTH = 320"
definition STD_DETECT_FRAME_HEIGHT :: int where "STD_DETECT_FRAME_HEIGHT = 240"

section \<open>The dataset loader: \<open>loadFaceData\<close>\<close>

text \<open>
  The three output containers of \<open>loadFaceData\<close>. They are reference parameters, so
  they exist, with what was pushed so far, also when the function leaves by an
  exception: the result is the message of the \<open>cv::Exception\<close>, if one was raised,
  together with the containers as they are at that moment.
\<close>

record face_data =
  images :: "Mat list"
  labels :: "int list"
  names :: "(int, string) std_map"

text \<open>
  The inner loop over \<open>items_face\<close> and \<open>types_face\<close> (vectors of equal length, read
  at the same index). \<open>i\<close> is the index of the person directory in \<open>items_data\<close>.
\<close>

fun load_images ::
  "filesystem \<Rightarrow> string \<Rightarrow> int \<Rightarrow> string \<Rightarrow> (string \<times> DirectoryItemType) list \<Rightarrow> face_data
     \<Rightarrow> string option \<times> face_data" where
  "load_images fs faceImagePath i person [] fd = (None, fd)"
| "load_images fs faceImagePath i person ((item, t) # rest) fd =
     (if \<not> (t = DIRITEM_FILE) then load_images fs faceImagePath i person rest fd
      else
        let imagePath = faceImagePath @ ''/'' @ item;
            img_original = fs_imread fs imagePath
        in case resize img_original (STD_FACE_REC_SIZE, STD_FACE_REC_SIZE) of
             Inl e \<Rightarrow> (Some e, fd)
           | Inr img_resized \<Rightarrow>
               load_images fs faceImagePath i person rest
                 (fd\<lparr>images := images fd @ [img_resized],
                     labels := labels fd @ [i],
                     names := map_insert (i, person) (names fd)\<rparr>))"

text \<open>
  The outer loop, with the loop counter \<open>i\<close>. (\<open>i\<close> is an \<open>int\<close> in the source; a
  directory with more than \<open>2^31\<close> entries is not considered.)
\<close>

fun load_persons ::
  "filesystem \<Rightarrow> string \<Rightarrow> nat \<Rightarrow> (string \<times> DirectoryItemType) list \<Rightarrow> face_data
     \<Rightarrow> string option \<times> face_data" where
  "load_persons fs faceDataPath i [] fd = (None, fd)"
| "load_persons fs faceDataPath i ((item, t) # rest) fd =
     (if \<not> (t = DIRITEM_DIR) then load_persons fs faceDataPath (Suc i) rest fd
      else
        let faceImagePath = faceDataPath @ ''/'' @ item
        in case traverseDirectory fs faceImagePath [] [] of
             (rc, items_face, types_face) \<Rightarrow>
               if rc < 0
               then (Some (''Cannot read the face image directory '' @ faceImagePath @ ''.''), fd)
               else
                 (case load_images fs faceImagePath (int i) item (zip items_face types_face) fd of
                    (Some e, fd') \<Rightarrow> (Some e, fd')
                  | (None, fd') \<Rightarrow> load_persons fs faceDataPath (Suc i) rest fd'))"

definition loadFaceData :: "filesystem \<Rightarrow> string \<Rightarrow> face_data \<Rightarrow> string option \<times> face_data" where
  "loadFaceData fs datapath fd0 =
     (let fd = fd0\<lparr>images := [], labels := [], names := []\<rparr>;
          faceDataPath = datapath @ ''/faces''
      in case traverseDirectory fs faceDataPath [] [] of
           (rc, items_data, types_data) \<Rightarrow>
             if rc < 0
             then (Some (''Cannot read the face database directory '' @ faceDataPath @ ''.''), fd)
             else load_persons fs faceDataPath 0 (zip items_data types_data) fd)"

section \<open>How a tool ends\<close>

text \<open>
  A tool ends with an exit status (\<open>return\<close> from \<open>main\<close> or \<open>exit\<close>), by an exception
  nobody catches, or by undefined behaviour (reading \<open>images[0]\<close> of an empty vector).
\<close>

datatype status = Exit int | Uncaught string | Undefined string

section \<open>FaceRecognitionImage: recognition on one image\<close>

text \<open>The JSON object written to \<open>ssInfo\<close> for one face.\<close>

definition json_face :: "('m, 'c) opencv \<Rightarrow> string \<Rightarrow> 'c \<Rightarrow> Rect \<Rightarrow> string" where
  "json_face cv strName confidence face_i =
     ''{'' @
     [dquote] @ ''prediction'' @ [dquote] @ '':'' @ [dquote] @ strName @ [dquote] @ '','' @
     [dquote] @ ''confidence'' @ [dquote] @ '':'' @ cv_show cv confidence @ '','' @
     [dquote] @ ''position'' @ [dquote] @ '':'' @ ''{'' @
        [dquote] @ ''x'' @ [dquote] @ '':'' @ show_int (fst (tl_pt face_i)) @ '','' @
        [dquote] @ ''y'' @ [dquote] @ '':'' @ show_int (snd (tl_pt face_i)) @
     ''},'' @
     [dquote] @ ''size'' @ [dquote] @ '':'' @ ''{'' @
        [dquote] @ ''width'' @ [dquote] @ '':'' @ show_int (fst (size_of face_i)) @ '','' @
        [dquote] @ ''height'' @ [dquote] @ '':'' @ show_int (snd (size_of face_i)) @
     ''}'' @
     ''}''"

text \<open>
  The body of the loop over the detected faces: crop, resize, predict, look the name
  up with \<open>names[prediction]\<close>, append to \<open>ssInfo\<close>. Drawing on the output image does
  not touch \<open>names\<close> or \<open>ssInfo\<close> and is left out. An exception of \<open>gray(face_i)\<close> or
  \<open>cv::resize\<close> leaves the loop.
\<close>

definition recognize_face ::
  "('m, 'c) opencv \<Rightarrow> 'm \<Rightarrow> Mat \<Rightarrow> int \<times> int \<Rightarrow> nat \<Rightarrow> Rect
     \<Rightarrow> (int, string) std_map \<times> string \<Rightarrow> string + ((int, string) std_map \<times> string)" where
  "recognize_face cv mdl gray im_size i face_i st =
     (case crop gray face_i of
        Inl e \<Rightarrow> Inl e
      | Inr face \<Rightarrow>
          (case resize face im_size of
             Inl e \<Rightarrow> Inl e
           | Inr face_resized \<Rightarrow>
               let (prediction, confidence) = cv_predict cv mdl face_resized;
                   (strName, names') = map_subscript (fst st) prediction
               in Inr (names',
                       snd st @ (if 0 < i then '','' else []) @
                       json_face cv strName confidence face_i)))"

fun recognize_faces ::
  "('m, 'c) opencv \<Rightarrow> 'm \<Rightarrow> Mat \<Rightarrow> int \<times> int \<Rightarrow> nat \<Rightarrow> Rect list
     \<Rightarrow> (int, string) std_map \<times> string \<Rightarrow> string + ((int, string) std_map \<times> string)" where
  "recognize_faces cv mdl gray im_size i [] st = Inr st"
| "recognize_faces cv mdl gray im_size i (face_i # rest) st =
     (case recognize_face cv mdl gray im_size i face_i st of
        Inl e \<Rightarrow> Inl e
      | Inr st' \<Rightarrow> recognize_faces cv mdl gray im_size (Suc i) rest st')"

text \<open>\<open>main\<close> up to the point where \<open>ssInfo\<close> is complete, or the way it ended before.\<close>

definition FaceRecognitionImage_stream ::
  "filesystem \<Rightarrow> ('m, 'c) opencv \<Rightarrow> string list \<Rightarrow> status + string" where
  "FaceRecognitionImage_stream fs cv argv =
     (if length argv < 5 then Inl (Exit 1)
      else
        let fn_cascade = argv ! 1; dir_data = argv ! 2; fn_inimage = argv ! 3;
            dir_faces = dir_data @ ''/faces''
        in if \<not> fs_access fs dir_faces then Inl (Exit 1)
           else
             (case loadFaceData fs dir_data \<lparr>images = [], labels = [], names = []\<rparr> of
                (Some e, fd) \<Rightarrow> Inl (Exit 1)
              | (None, fd) \<Rightarrow>
                  (case images fd of
                     [] \<Rightarrow> Inl (Undefined ''images[0]'')
                   | img0 # _ \<Rightarrow>
                       let im_width = cols img0; im_height = rows img0
                       in case cv_train cv (images fd) (labels fd) of
                            None \<Rightarrow> Inl (Uncaught ''train'')
                          | Some mdl \<Rightarrow>
                              (case cvtColor (fs_imread fs fn_inimage) of
                                 Inl e \<Rightarrow> Inl (Uncaught e)
                               | Inr gray \<Rightarrow>
                                   (case recognize_faces cv mdl gray (im_width, im_height) 0
                                           (cv_detect cv fn_cascade gray) (names fd, []) of
                                      Inl e \<Rightarrow> Inl (Uncaught e)
                                    | Inr st \<Rightarrow> Inr (snd st))))))"

text \<open>
  The end of \<open>main\<close>: the exit status and, when the information file could be opened,
  its path and what was written to it.
\<close>

definition FaceRecognitionImage_main ::
  "filesystem \<Rightarrow> ('m, 'c) opencv \<Rightarrow> string list \<Rightarrow> status \<times> (string \<times> string) option" where
  "FaceRecognitionImage_main fs cv argv =
     (case FaceRecognitionImage_stream fs cv argv of
        Inl st \<Rightarrow> (st, None)
      | Inr ssInfo \<Rightarrow>
          let fn_outinfo = argv ! 4
          in if fs_ofstream_open fs fn_outinfo
             then (let strInfo = first_token ssInfo
                   in (Exit 0, Some (fn_outinfo, ''['' @ strInfo @ '']'' @ endl)))
             else (Exit 1, None))"

section \<open>Name2Protraits: the portraits of a name\<close>

text \<open>The loop over the entries of the person's portrait directory.\<close>

fun protrait_paths ::
  "string \<Rightarrow> (string \<times> DirectoryItemType) list \<Rightarrow> bool \<Rightarrow> string \<Rightarrow> string" where
  "protrait_paths dir_usrprotraits [] firstFileFlag ssInfo = ssInfo"
| "protrait_paths dir_usrprotraits ((item, t) # rest) firstFileFlag ssInfo =
     (if t = DIRITEM_FILE
      then let protraitImagePath = dir_usrprotraits @ ''/'' @ item
           in protrait_paths dir_usrprotraits rest False
                (ssInfo @ (if \<not> firstFileFlag then '','' else []) @
                 [dquote] @ protraitImagePath @ [dquote])
      else protrait_paths dir_usrprotraits rest firstFileFlag ssInfo)"

text \<open>
  The search for the name among the entries of \<open>protraits\<close>; both \<open>break\<close>s end it.
  The return value of \<open>traverseDirectory\<close> is not looked at.
\<close>

fun find_protraits ::
  "filesystem \<Rightarrow> string \<Rightarrow> string \<Rightarrow> (string \<times> DirectoryItemType) list \<Rightarrow> string \<Rightarrow> string" where
  "find_protraits fs dir_protraits name [] ssInfo = ssInfo"
| "find_protraits fs dir_protraits name ((item, t) # rest) ssInfo =
     (if name = item
      then (if t \<noteq> DIRITEM_DIR then ssInfo
            else
              let dir_usrprotraits = dir_protraits @ ''/'' @ name
              in case traverseDirectory fs dir_usrprotraits [] [] of
                   (rc, items_usrprotraits, types_usrprotraits) \<Rightarrow>
                     protrait_paths dir_usrprotraits
                       (zip items_usrprotraits types_usrprotraits) True ssInfo)
      else find_protraits fs dir_protraits name rest ssInfo)"

definition Name2Protraits_stream :: "filesystem \<Rightarrow> string \<Rightarrow> string \<Rightarrow> string" where
  "Name2Protraits_stream fs dir_data name =
     (let dir_protraits = dir_data @ ''/protraits''
      in if fs_access fs dir_protraits
         then (case traverseDirectory fs dir_protraits [] [] of
                 (rc, items_protraits, types_protraits) \<Rightarrow>
                   find_protraits fs dir_protraits name
                     (zip items_protraits types_protraits) [])
         else [])"

definition Name2Protraits_main ::
  "filesystem \<Rightarrow> string list \<Rightarrow> status \<times> (string \<times> string) option" where
  "Name2Protraits_main fs argv =
     (if length argv \<noteq> 4 then (Exit 1, None)
      else
        let dir_data = argv ! 1; name = argv ! 2; fn_info = argv ! 3;
            ssInfo = Name2Protraits_stream fs dir_data name
        in if fs_ofstream_open fs fn_info
           then (let strInfo = first_token ssInfo
                 in (Exit 0, Some (fn_info, ''['' @ strInfo @ '']'' @ endl)))
           else (Exit 0, None))"

section \<open>Arithmetic on \<open>double\<close>\<close>

text \<open>
  A \<open>double\<close> is a binary64 number, here the rational it denotes. Every operation
  gives the exact result rounded to the nearest number with 53 significant bits, ties
  to the even one (the default rounding, as \<open>x86-64\<close> code computes). Infinities, NaN
  and subnormal numbers are not represented: the values that occur are quotients and
  products of 32-bit integers, far inside the normal range.
\<close>

type_synonym double = rat

definition pow2 :: "int \<Rightarrow> rat" where
  "pow2 e = (if 0 \<le> e then 2 ^ nat e else 1 / 2 ^ nat (- e))"

text \<open>The exponent \<open>e\<close> with \<open>2^e \<le> r < 2^(e+1)\<close>, for a positive \<open>r\<close>.\<close>

definition exponent :: "rat \<Rightarrow> int" where
  "exponent r =
     (let e = bitlen (fst (quotient_of r)) - bitlen (snd (quotient_of r))
      in if pow2 e \<le> r then e else e - 1)"

definition round_even :: "rat \<Rightarrow> int" where
  "round_even r =
     (let n = \<lfloor>r\<rfloor>; f = r - of_int n
      in if f < 1 / 2 then n
         else if 1 / 2 < f then n + 1
         else if even n then n else n + 1)"

definition binary64 :: "rat \<Rightarrow> double" where
  "binary64 r =
     (if r = 0 then 0
      else let ulp = pow2 (exponent \<bar>r\<bar> - 52)
           in sgn r * of_int (round_even (\<bar>r\<bar> / ulp)) * ulp)"

text \<open>
  The conversion \<open>(double) n\<close>, product and quotient, and the conversion to \<open>int\<close>
  that happens when a \<open>double\<close> is passed to the constructor of \<open>Rect_<int>\<close>: the
  fractional part is discarded.
\<close>

definition d_of_int :: "int \<Rightarrow> double" where
  "d_of_int n = binary64 (of_int n)"

definition d_mul :: "double \<Rightarrow> double \<Rightarrow> double" where
  "d_mul a b = binary64 (a * b)"

definition d_div :: "double \<Rightarrow> double \<Rightarrow> double" where
  "d_div a b = binary64 (a / b)"

definition d_to_int :: "double \<Rightarrow> int" where
  "d_to_int r = (if 0 \<le> r then \<lfloor>r\<rfloor> else \<lceil>r\<rceil>)"

section \<open>FaceCollection: the live capture loop\<close>

text \<open>The variables of \<open>main\<close> that the loop changes, and the files handed to \<open>imwrite\<close>.\<close>

record 'm session = face_data +
  name2label :: "(string, int) std_map"
  model :: 'm
  saveFaceFlag :: bool
  saveProtraitFlag :: bool
  saveImageCount :: int
  exitAppFlag :: bool
  written :: "string list"

text \<open>What is fixed before the loop starts.\<close>

record capture =
  fn_cascade :: string
  dir_usrfaces :: string
  dir_usrprotraits :: string
  expectName :: string
  invfscale_x :: double
  invfscale_y :: double
  im_width :: int
  im_height :: int

text \<open>The scale factors, from the first frame grabbed.\<close>

definition inv_scale :: "Mat \<Rightarrow> double \<times> double" where
  "inv_scale frame =
     (d_div (d_of_int (cols frame)) (d_of_int STD_DETECT_FRAME_WIDTH),
      d_div (d_of_int (rows frame)) (d_of_int STD_DETECT_FRAME_HEIGHT))"

text \<open>\<open>face_i_original\<close>.\<close>

definition scale_rect :: "double \<Rightarrow> double \<Rightarrow> Rect \<Rightarrow> Rect" where
  "scale_rect sx sy face_i =
     \<lparr>rect_x = d_to_int (d_mul (d_of_int (rect_x face_i)) sx),
      rect_y = d_to_int (d_mul (d_of_int (rect_y face_i)) sy),
      rect_width = d_to_int (d_mul (d_of_int (rect_width face_i)) sx),
      rect_height = d_to_int (d_mul (d_of_int (rect_height face_i)) sy)\<rparr>"

text \<open>The file name built in a \<open>stringstream\<close> and read back with \<open>>>\<close>.\<close>

definition image_filename :: "string \<Rightarrow> int \<Rightarrow> int \<Rightarrow> string" where
  "image_filename dir now count =
     first_token (dir @ ''/'' @ show_int now @ ''_'' @ show_int count @ ''.jpg'')"

text \<open>
  The block \<open>if (saveFaceFlag) { ... }\<close>: save the face, append it to the dataset under
  the label of the current name (\<open>-1\<close> when \<open>name2label\<close> has none), retrain.
\<close>

definition enroll_face ::
  "('m, 'c) opencv \<Rightarrow> capture \<Rightarrow> int \<Rightarrow> Mat \<Rightarrow> 'm session \<Rightarrow> string + 'm session" where
  "enroll_face cv cap now face_resized s =
     (let strFilename = image_filename (dir_usrfaces cap) now (saveImageCount s);
          usrLabel = (case map_find (name2label s) (expectName cap) of
                        Some l \<Rightarrow> l
                      | None \<Rightarrow> - 1);
          images' = images s @ [face_resized];
          labels' = labels s @ [usrLabel]
      in case cv_train cv images' labels' of
           None \<Rightarrow> Inl ''train''
         | Some mdl \<Rightarrow>
             Inr (s\<lparr>images := images', labels := labels',
                    names := map_insert (usrLabel, expectName cap) (names s),
                    name2label := map_insert (expectName cap, usrLabel) (name2label s),
                    model := mdl,
                    saveImageCount := saveImageCount s + 1,
                    written := written s @ [strFilename],
                    saveFaceFlag := False\<rparr>))"

text \<open>The block \<open>if (saveProtraitFlag) { ... }\<close>.\<close>

definition enroll_protrait ::
  "capture \<Rightarrow> int \<Rightarrow> Mat \<Rightarrow> Rect \<Rightarrow> 'm session \<Rightarrow> string + 'm session" where
  "enroll_protrait cap now original_resized face_i s =
     (case crop original_resized face_i of
        Inl e \<Rightarrow> Inl e
      | Inr protrait \<Rightarrow>
          (case resize protrait (STD_PROTRAIT_SIZE, STD_PROTRAIT_SIZE) of
             Inl e \<Rightarrow> Inl e
           | Inr protrait_resize \<Rightarrow>
               let strFilename = image_filename (dir_usrprotraits cap) now (saveImageCount s)
               in Inr (s\<lparr>saveImageCount := saveImageCount s + 1,
                         written := written s @ [strFilename],
                         saveProtraitFlag := False\<rparr>)))"

text \<open>What is drawn for one face: the rectangle, the name and the confidence shown.\<close>

record 'c annotation =
  an_rect :: Rect
  an_name :: string
  an_confidence :: 'c
  an_pos :: "int \<times> int"

text \<open>
  The body of the loop over the faces of a frame. \<open>after_face\<close> and \<open>after_protrait\<close>
  are the two blocks, each run only when its flag is set.
\<close>

definition after_face ::
  "('m, 'c) opencv \<Rightarrow> capture \<Rightarrow> int \<Rightarrow> Mat \<Rightarrow> 'm session \<Rightarrow> string + 'm session" where
  "after_face cv cap now face_resized s =
     (if saveFaceFlag s then enroll_face cv cap now face_resized s else Inr s)"

definition after_protrait ::
  "capture \<Rightarrow> int \<Rightarrow> Mat \<Rightarrow> Rect \<Rightarrow> 'm session \<Rightarrow> string + 'm session" where
  "after_protrait cap now original_resized face_i s =
     (if saveProtraitFlag s then enroll_protrait cap now original_resized face_i s else Inr s)"

definition process_face ::
  "('m, 'c) opencv \<Rightarrow> capture \<Rightarrow> int \<Rightarrow> Mat \<Rightarrow> Mat \<Rightarrow> Rect \<Rightarrow> 'm session
     \<Rightarrow> string + ('m session \<times> 'c annotation)" where
  "process_face cv cap now original_resized gray face_i s =
     (let face_i_original = scale_rect (invfscale_x cap) (invfscale_y cap) face_i
      in case crop gray face_i of
           Inl e \<Rightarrow> Inl e
         | Inr face \<Rightarrow>
             (case resize face (im_width cap, im_height cap) of
                Inl e \<Rightarrow> Inl e
              | Inr face_resized \<Rightarrow>
                  let (prediction, confidence) = cv_predict cv (model s) face_resized
                  in case after_face cv cap now face_resized s of
                       Inl e \<Rightarrow> Inl e
                     | Inr s1 \<Rightarrow>
                         (case after_protrait cap now original_resized face_i s1 of
                            Inl e \<Rightarrow> Inl e
                          | Inr s2 \<Rightarrow>
                              let (strName, names') = map_subscript (names s2) prediction;
                                  pos_x = max (fst (tl_pt face_i_original) - 10) 0;
                                  pos_y = max (snd (tl_pt face_i_original) - 10) 0
                              in Inr (s2\<lparr>names := names'\<rparr>,
                                      \<lparr>an_rect = face_i_original, an_name = strName,
                                       an_confidence = confidence,
                                       an_pos = (pos_x, pos_y)\<rparr>))))"








section \<open>Example file systems\<close>

text \<open>
  A small file system for trying the tools: the directories with what \<open>readdir\<close>
  enumerates in each, the regular files, and the directories that \<open>stat\<close> knows but
  \<open>opendir\<close> refuses. Directories have mode \<open>040755\<close>, regular files \<open>0100644\<close>; every
  regular file decodes to a 640 by 480 image.
\<close>

definition mk_fs :: "(string \<times> string list) list \<Rightarrow> string list \<Rightarrow> string list \<Rightarrow> filesystem" where
  "mk_fs dirs files locked =
     \<lparr>fs_access = (\<lambda>p. map_of dirs p \<noteq> None \<or> p \<in> set files \<or> p \<in> set locked),
      fs_opendir = map_of dirs,
      fs_stat = (\<lambda>p. if map_of dirs p \<noteq> None \<or> p \<in> set locked then Some 0x41ED
                     else if p \<in> set files then Some 0x81A4
                     else None),
      fs_imread = (\<lambda>p. if p \<in> set files then \<lparr>rows = 480, cols = 640\<rparr>
                       else \<lparr>rows = 0, cols = 0\<rparr>),
      fs_ofstream_open = (\<lambda>p. True)\<rparr>"

definition fs_hidden :: filesystem where
  "fs_hidden =
     mk_fs [(''/d'', [''.'', ''..'', ''.git'', ''.cache'']),
            (''/e'', [''.'', ''a.jpg'', ''.b.jpg'', ''sub''])]
           [''/d/.cache'', ''/e/a.jpg'', ''/e/.b.jpg''] [''/d/.git'', ''/e/sub'']"

definition fs_stale :: filesystem where
  "fs_stale =
     mk_fs [(''/d'', [''.'', ''..'', ''a.jpg'', ''sub'', ''gone'', ''b.jpg''])]
           [''/d/a.jpg'', ''/d/b.jpg''] [''/d/sub'']"

definition fs_demo :: filesystem where
  "fs_demo =
     mk_fs [(''/db/faces'', [''.'', ''..'', ''alice'', ''bob'']),
            (''/db/faces/alice'', [''.'', ''..'', ''a1.jpg'', ''.thumbs'', ''a2.jpg'']),
            (''/db/faces/bob'', [''.'', ''..'', ''b1.jpg''])]
           [''/db/faces/alice/a1.jpg'', ''/db/faces/alice/.thumbs'',
            ''/db/faces/alice/a2.jpg'', ''/db/faces/bob/b1.jpg''] []"

text \<open>\<open>bob\<close> has no image yet (FaceCollection makes the directory of a new name).\<close>

definition fs_empty_person :: filesystem where
  "fs_empty_person =
     mk_fs [(''/db/faces'', [''.'', ''..'', ''alice'', ''bob'']),
            (''/db/faces/alice'', [''.'', ''..'', ''a1.jpg'']),
            (''/db/faces/bob'', [''.'', ''..''])]
           [''/db/faces/alice/a1.jpg''] []"

text \<open>A regular file next to the person directories.\<close>

definition fs_notes :: filesystem where
  "fs_notes =
     mk_fs [(''/db/faces'', [''.'', ''..'', ''notes.txt'', ''alice'']),
            (''/db/faces/alice'', [''.'', ''..'', ''a1.jpg''])]
           [''/db/faces/notes.txt'', ''/db/faces/alice/a1.jpg''] []"

text \<open>\<open>bob\<close> cannot be opened.\<close>

definition fs_locked :: filesystem where
  "fs_locked =
     mk_fs [(''/db/faces'', [''.'', ''..'', ''alice'', ''bob'']),
            (''/db/faces/alice'', [''.'', ''..'', ''a1.jpg''])]
           [''/db/faces/alice/a1.jpg''] [''/db/faces/bob'']"

section \<open>Notions for stating what the loader does\<close>

text \<open>
  These are not in the source; they say, in terms of the file system alone, what a
  person directory, an image file and a loadable layout are.
\<close>

definition is_regular_file :: "filesystem \<Rightarrow> string \<Rightarrow> bool" where
  "is_regular_file fs path = (case fs_stat fs path of None \<Rightarrow> False | Some m \<Rightarrow> S_ISREG m)"

definition is_directory :: "filesystem \<Rightarrow> string \<Rightarrow> bool" where
  "is_directory fs path = (case fs_stat fs path of None \<Rightarrow> False | Some m \<Rightarrow> S_ISDIR m)"

text \<open>A directory is readable when it can be opened and \<open>stat\<close> succeeds on every visible entry.\<close>

definition readable :: "filesystem \<Rightarrow> string \<Rightarrow> bool" where
  "readable fs dir =
     (case fs_opendir fs dir of
        None \<Rightarrow> False
      | Some entries \<Rightarrow> list_all (stat_ok fs dir) (visible entries))"

definition visible_entries :: "filesystem \<Rightarrow> string \<Rightarrow> string list" where
  "visible_entries fs dir = (case fs_opendir fs dir of None \<Rightarrow> [] | Some entries \<Rightarrow> visible entries)"

definition image_files :: "filesystem \<Rightarrow> string \<Rightarrow> string list" where
  "image_files fs dir =
     filter (\<lambda>f. is_regular_file fs (dir @ ''/'' @ f)) (visible_entries fs dir)"

definition person_dirs :: "filesystem \<Rightarrow> string \<Rightarrow> string list" where
  "person_dirs fs faces =
     filter (\<lambda>d. is_directory fs (faces @ ''/'' @ d)) (visible_entries fs faces)"

definition decodable :: "filesystem \<Rightarrow> string \<Rightarrow> bool" where
  "decodable fs path = (0 < rows (fs_imread fs path) * cols (fs_imread fs path))"

definition loadable_person :: "filesystem \<Rightarrow> string \<Rightarrow> bool" where
  "loadable_person fs dir =
     (readable fs dir \<and> list_all (\<lambda>f. decodable fs (dir @ ''/'' @ f)) (image_files fs dir))"

text \<open>
  A valid two-level layout under \<open>datapath\<close>: \<open>faces\<close> is readable, and so is every
  person directory in it, whose regular files are all images.
\<close>

definition valid_layout :: "filesystem \<Rightarrow> string \<Rightarrow> bool" where
  "valid_layout fs datapath =
     (let faces = datapath @ ''/faces''
      in readable fs faces \<and>
         list_all (\<lambda>d. loadable_person fs (faces @ ''/'' @ d)) (person_dirs fs faces))"

text \<open>
  The labels a load pushes, for the visible entries \<open>ds\<close> of \<open>faces\<close> counted from \<open>i\<close>:
  the position of each person directory, once for every image file in it.
\<close>

definition labels_from :: "filesystem \<Rightarrow> string \<Rightarrow> nat \<Rightarrow> string list \<Rightarrow> int list" where
  "labels_from fs faces i ds =
     concat (map (\<lambda>(k, d). if is_directory fs (faces @ ''/'' @ d)
                            then replicate (length (image_files fs (faces @ ''/'' @ d))) (int k)
                            else [])
                 (enumerate i ds))"

definition std_face :: Mat where
  "std_face = \<lparr>rows = STD_FACE_REC_SIZE, cols = STD_FACE_REC_SIZE\<rparr>"

definition no_data :: face_data where
  "no_data = \<lparr>images = [], labels = [], names = []\<rparr>"

section \<open>Notions for stating what the tools write\<close>

definition listed_entries :: "filesystem \<Rightarrow> string \<Rightarrow> string list" where
  "listed_entries fs dir =
     (case fs_opendir fs dir of None \<Rightarrow> [] | Some entries \<Rightarrow> listed fs dir entries)"

text \<open>
  The name is found as a directory: \<open>protraits\<close> exists, and the name is among the
  entries the traversal of \<open>protraits\<close> reaches, as a directory.
\<close>

definition protrait_dir_listed :: "filesystem \<Rightarrow> string \<Rightarrow> string \<Rightarrow> bool" where
  "protrait_dir_listed fs dir_data name =
     (let dir_protraits = dir_data @ ''/protraits''
      in fs_access fs dir_protraits \<and>
         name \<in> set (listed_entries fs dir_protraits) \<and>
         is_directory fs (dir_protraits @ ''/'' @ name))"

text \<open>The regular files among the entries the traversal of a directory reaches.\<close>

definition protrait_files :: "filesystem \<Rightarrow> string \<Rightarrow> string list" where
  "protrait_files fs dir =
     filter (\<lambda>f. is_regular_file fs (dir @ ''/'' @ f)) (listed_entries fs dir)"

definition quoted :: "string \<Rightarrow> string" where
  "quoted p = [dquote] @ p @ [dquote]"

fun join_commas :: "string list \<Rightarrow> string" where
  "join_commas [] = []"
| "join_commas [x] = x"
| "join_commas (x # y # r) = x @ '','' @ join_commas (y # r)"

definition has_space :: "string \<Rightarrow> bool" where
  "has_space ss = list_ex isspace ss"

definition up_to_space :: "string \<Rightarrow> string" where
  "up_to_space ss = takeWhile (\<lambda>c. \<not> isspace c) ss"

text \<open>Portrait directories: an absolute data path, a relative one, one with a space.\<close>

definition fs_protraits :: filesystem where
  "fs_protraits =
     mk_fs [(''/db/protraits'', [''.'', ''..'', ''alice'', ''bob'']),
            (''/db/protraits/bob'', [''.'', ''..'', ''p1.jpg'', ''old'', ''p2.jpg'']),
            (''/db/protraits/alice'', [''.'', ''..'']),
            (''/db/protraits/bob/old'', [''.'', ''..''])]
           [''/db/protraits/bob/p1.jpg'', ''/db/protraits/bob/p2.jpg''] []"

definition fs_relative :: filesystem where
  "fs_relative =
     mk_fs [(''db/protraits'', [''.'', ''..'', ''bob'']),
            (''db/protraits/bob'', [''.'', ''..'', ''a.jpg'', ''.b.jpg''])]
           [''db/protraits/bob/a.jpg'', ''db/protraits/bob/.b.jpg''] []"

definition fs_space :: filesystem where
  "fs_space =
     mk_fs [(''/my db/protraits'', [''.'', ''..'', ''bob'']),
            (''/my db/protraits/bob'', [''.'', ''..'', ''a.jpg'']),
            (''/my db/faces'', [''.'', ''..'', ''john smith'', ''eve'']),
            (''/my db/faces/john smith'', [''.'', ''..'', ''j.jpg'']),
            (''/my db/faces/eve'', [''.'', ''..'', ''e.jpg''])]
           [''/my db/protraits/bob/a.jpg'', ''/my db/faces/john smith/j.jpg'',
            ''/my db/faces/eve/e.jpg'', ''/in.jpg''] []"

text \<open>
  A recogniser for trying the tools: the model is its training set, every face is
  predicted with the given label, one face is detected in every image.
\<close>

definition cv_const :: "int \<Rightarrow> Rect list \<Rightarrow> (Mat list \<times> int list, unit) opencv" where
  "cv_const label faces =
     \<lparr>cv_train = (\<lambda>imgs labs. Some (imgs, labs)),
      cv_predict = (\<lambda>mdl face. (label, ())),
      cv_detect = (\<lambda>cascade gray. faces),
      cv_show = (\<lambda>c. ''0'')\<rparr>"

definition face_rect :: Rect where
  "face_rect = \<lparr>rect_x = 1, rect_y = 3, rect_width = 50, rect_height = 60\<rparr>"

section \<open>An example session of FaceCollection\<close>


definition detect_frame :: Mat where
  "detect_frame = \<lparr>rows = STD_DETECT_FRAME_HEIGHT, cols = STD_DETECT_FRAME_WIDTH\<rparr>"

text \<open>
  Two cameras: one with frames of 480 by 360, for which both scale factors are 1.5,
  and one with frames of 224 by 168, for which they are the \<open>double\<close> next to 0.7.
\<close>

definition camera_frame :: Mat where
  "camera_frame = \<lparr>rows = 360, cols = 480\<rparr>"

definition small_frame :: Mat where
  "small_frame = \<lparr>rows = 168, cols = 224\<rparr>"

definition cap_for :: "double \<times> double \<Rightarrow> capture" where
  "cap_for scale =
     \<lparr>fn_cascade = ''c.xml'', dir_usrfaces = ''/db/faces/carol'',
      dir_usrprotraits = ''/db/protraits/carol'', expectName = ''carol'',
      invfscale_x = fst scale, invfscale_y = snd scale,
      im_width = 64, im_height = 64\<rparr>"

definition cap_carol :: capture where
  "cap_carol = cap_for (3 / 2, 3 / 2)"

definition cap_small :: capture where
  "cap_small =
     cap_for (6305039478318694 / 9007199254740992, 6305039478318694 / 9007199254740992)"

definition wide_rect :: Rect where
  "wide_rect = \<lparr>rect_x = 90, rect_y = 3, rect_width = 50, rect_height = 60\<rparr>"


text \<open>
  A recogniser in the manner of the nearest-neighbour one the tools create: training
  needs samples, and a prediction is the label of a training sample (here the first).
  One face is detected in every frame.
\<close>

definition cv_demo :: "(Mat list \<times> int list, unit) opencv" where
  "cv_demo =
     \<lparr>cv_train = (\<lambda>imgs labs. if labs = [] then None else Some (imgs, labs)),
      cv_predict = (\<lambda>mdl face. (if snd mdl = [] then 0 else hd (snd mdl), ())),
      cv_detect = (\<lambda>cascade gray. [face_rect]),
      cv_show = (\<lambda>c. ''0'')\<rparr>"

text \<open>
  The session after the start, after a first turn at the end of which the user presses
  the space bar, and after the turn that follows.
\<close>

definition session0 :: "(Mat list \<times> int list) session" where
  "session0 =
     \<lparr>images = [std_face, std_face, std_face], labels = [0, 0, 1],
      names = [(0, ''alice''), (1, ''bob'')],
      name2label = [(''alice'', 0), (''bob'', 1)],
      model = ([std_face, std_face, std_face], [0, 0, 1]),
      saveFaceFlag = False, saveProtraitFlag = False, saveImageCount = 0,
      exitAppFlag = False, written = []\<rparr>"

definition session1 :: "(Mat list \<times> int list) session" where
  "session1 = session0\<lparr>saveFaceFlag := True\<rparr>"


section \<open>Notions for stating what an enrolment does\<close>



section \<open>Properties of the catalog\<close>

text \<open>
  The loop in closed form: it appends the visible entries up to the first one whose
  \<open>stat\<close> fails, each with the classification of its mode, and fails exactly when
  there is such an entry.
\<close>

lemma readdir_loop_closed:
  "readdir_loop fs dirpath entries items types =
     (if list_all (stat_ok fs dirpath) (visible entries) then 0 else - 1,
      items @ listed fs dirpath entries,
      types @ map (type_at fs dirpath) (listed fs dirpath entries))"
  by (induction entries arbitrary: items types)
     (auto simp: visible_def listed_def stat_ok_def type_at_def split: option.splits)

lemma listed_all_ok:
  "list_all (stat_ok fs dirpath) (visible entries) \<Longrightarrow> listed fs dirpath entries = visible entries"
  by (simp add: listed_def list_all_iff)

lemma listed_subset: "set (listed fs dirpath entries) \<subseteq> set (visible entries)"
  unfolding listed_def by (auto dest: set_takeWhileD)

lemma listed_stat_ok: "d \<in> set (listed fs dirpath entries) \<Longrightarrow> stat_ok fs dirpath d"
  unfolding listed_def by (auto dest: set_takeWhileD)

lemma visible_not_hidden: "d \<in> set (visible entries) \<Longrightarrow> \<not> is_hidden d"
  by (simp add: visible_def)

lemma traverseDirectory_unreadable:
  "fs_opendir fs dirpath = None \<Longrightarrow> traverseDirectory fs dirpath items types = (- 1, [], [])"
  by (simp add: traverseDirectory_def)

lemma traverseDirectory_readable:
  "fs_opendir fs dirpath = Some entries \<Longrightarrow>
   traverseDirectory fs dirpath items types =
     (if list_all (stat_ok fs dirpath) (visible entries) then 0 else - 1,
      listed fs dirpath entries,
      map (type_at fs dirpath) (listed fs dirpath entries))"
  by (simp add: traverseDirectory_def readdir_loop_closed)

lemmas fs_eval =
  mk_fs_def itemType_def S_ISREG_def S_ISDIR_def S_IFMT_def S_IFREG_def S_IFDIR_def

text \<open>
  C8. Whatever the directory, no name that begins with a dot is among the items
  \<open>traverseDirectory\<close> returns; and when the directory can be opened and every entry
  it enumerates is hidden, the call succeeds (returns 0) with both vectors empty.
\<close>

theorem traverseDirectory_skips_hidden:
  "(\<forall>n \<in> set (fst (snd (traverseDirectory fs dirpath items types))). \<not> is_hidden n) \<and>
   (fs_opendir fs dirpath = Some entries \<longrightarrow> (\<forall>d \<in> set entries. is_hidden d) \<longrightarrow>
      traverseDirectory fs dirpath items types = (0, [], []))"
proof (cases "fs_opendir fs dirpath")
  case None
  then show ?thesis by (simp add: traverseDirectory_unreadable)
next
  case (Some es)
  have shown: "\<not> is_hidden n" if "n \<in> set (listed fs dirpath es)" for n
    using that listed_subset visible_not_hidden by blast
  have empty: "traverseDirectory fs dirpath items types = (0, [], [])"
    if "\<forall>d \<in> set es. is_hidden d"
  proof -
    from that have "visible es = []" by (simp add: visible_def)
    with Some show ?thesis by (simp add: traverseDirectory_readable listed_def)
  qed
  from Some shown have "\<forall>n \<in> set (fst (snd (traverseDirectory fs dirpath items types))). \<not> is_hidden n"
    by (simp add: traverseDirectory_readable)
  with Some empty show ?thesis by auto
qed

theorem traverseDirectory_skips_hidden_witness:
  "fs_opendir fs_hidden ''/d'' = Some [''.'', ''..'', ''.git'', ''.cache''] \<and>
   traverseDirectory fs_hidden ''/d'' [''old''] [DIRITEM_FILE] = (0, [], []) \<and>
   fst (snd (traverseDirectory fs_hidden ''/e'' [''old''] [DIRITEM_FILE])) = [''a.jpg'', ''sub''] \<and>
   \<not> is_hidden ''a.jpg'' \<and> \<not> is_hidden ''sub''"
proof -
  have op: "fs_opendir fs_hidden ''/d'' = Some [''.'', ''..'', ''.git'', ''.cache'']"
    by (simp add: fs_hidden_def mk_fs_def)
  have hid: "\<forall>d \<in> set [''.'', ''..'', ''.git'', ''.cache'']. is_hidden d"
    by simp
  have e: "fst (snd (traverseDirectory fs_hidden ''/e'' [''old''] [DIRITEM_FILE])) = [''a.jpg'', ''sub'']"
    by (simp add: traverseDirectory_def fs_hidden_def fs_eval)
  from traverseDirectory_skips_hidden
         [of fs_hidden "''/d''" "[''old'']" "[DIRITEM_FILE]" "[''.'', ''..'', ''.git'', ''.cache'']"]
       op hid
  have d: "traverseDirectory fs_hidden ''/d'' [''old''] [DIRITEM_FILE] = (0, [], [])"
    by blast
  from traverseDirectory_skips_hidden
         [of fs_hidden "''/e''" "[''old'']" "[DIRITEM_FILE]" "[]"] e
  have "\<not> is_hidden ''a.jpg'' \<and> \<not> is_hidden ''sub''"
    by simp
  with op d e show ?thesis by blast
qed

text \<open>
  C9. After any call of \<open>traverseDirectory\<close>, whatever it returns (0 or -1): the two
  vectors have the same length; every \<open>types[k]\<close> is one of the three item types and
  is the classification of the mode that \<open>stat\<close> gave for the entry named \<open>items[k]\<close>;
  and the vectors hold nothing of what they held before the call (the result is the
  same as for empty vectors) and only names that the directory enumerates.
\<close>

theorem traverseDirectory_vectors:
  assumes "traverseDirectory fs dirpath items0 types0 = (rc, items, types)"
  shows "length items = length types \<and>
         (\<forall>k < length items.
            types ! k \<in> {DIRITEM_OTHER, DIRITEM_FILE, DIRITEM_DIR} \<and>
            (\<exists>st_mode. fs_stat fs (dirpath @ ''/'' @ items ! k) = Some st_mode \<and>
                       types ! k = itemType st_mode)) \<and>
         traverseDirectory fs dirpath [] [] = (rc, items, types) \<and>
         (rc = 0 \<or> rc = - 1) \<and>
         set items \<subseteq> (case fs_opendir fs dirpath of None \<Rightarrow> {} | Some entries \<Rightarrow> set entries)"
proof (cases "fs_opendir fs dirpath")
  case None
  with assms show ?thesis by (auto simp: traverseDirectory_unreadable)
next
  case (Some es)
  from assms Some have items: "items = listed fs dirpath es"
    and types: "types = map (type_at fs dirpath) (listed fs dirpath es)"
    and rc: "rc = (if list_all (stat_ok fs dirpath) (visible es) then 0 else - 1)"
    by (auto simp: traverseDirectory_readable)
  have cls: "types ! k \<in> {DIRITEM_OTHER, DIRITEM_FILE, DIRITEM_DIR} \<and>
             (\<exists>st_mode. fs_stat fs (dirpath @ ''/'' @ items ! k) = Some st_mode \<and>
                        types ! k = itemType st_mode)" if "k < length items" for k
  proof -
    from that items have "stat_ok fs dirpath (items ! k)"
      using listed_stat_ok nth_mem by blast
    then obtain m where "fs_stat fs (dirpath @ ''/'' @ items ! k) = Some m"
      by (auto simp: stat_ok_def)
    moreover from that items types have "types ! k = type_at fs dirpath (items ! k)"
      by simp
    ultimately have "\<exists>st_mode. fs_stat fs (dirpath @ ''/'' @ items ! k) = Some st_mode \<and>
                               types ! k = itemType st_mode"
      by (simp add: type_at_def)
    moreover have "types ! k \<in> {DIRITEM_OTHER, DIRITEM_FILE, DIRITEM_DIR}"
      by (cases "types ! k") simp_all
    ultimately show ?thesis by blast
  qed
  have "set items \<subseteq> set es"
    using items listed_subset [of fs dirpath es] by (auto simp: visible_def)
  moreover have "traverseDirectory fs dirpath [] [] = (rc, items, types)"
    using Some items types rc by (simp add: traverseDirectory_readable)
  moreover have "length items = length types"
    using items types by simp
  moreover have "rc = 0 \<or> rc = - 1"
    using rc by simp
  ultimately show ?thesis using cls Some by simp
qed

theorem traverseDirectory_vectors_witness:
  "traverseDirectory fs_stale ''/d'' [''old'', ''older''] [DIRITEM_OTHER] =
     (- 1, [''a.jpg'', ''sub''], [DIRITEM_FILE, DIRITEM_DIR]) \<and>
   length [''a.jpg'', ''sub''] = length [DIRITEM_FILE, DIRITEM_DIR] \<and>
   traverseDirectory fs_stale ''/d'' [] [] = (- 1, [''a.jpg'', ''sub''], [DIRITEM_FILE, DIRITEM_DIR]) \<and>
   fs_stat fs_stale ''/d/gone'' = None"
proof -
  have run: "traverseDirectory fs_stale ''/d'' [''old'', ''older''] [DIRITEM_OTHER] =
               (- 1, [''a.jpg'', ''sub''], [DIRITEM_FILE, DIRITEM_DIR])"
    by (simp add: traverseDirectory_def fs_stale_def fs_eval)
  have "fs_stat fs_stale ''/d/gone'' = None"
    by (simp add: fs_stale_def mk_fs_def)
  with run traverseDirectory_vectors [OF run] show ?thesis by simp
qed

section \<open>Properties of the loader\<close>

lemma regdir: "S_ISREG m \<Longrightarrow> \<not> S_ISDIR m"
  by (auto simp: fs_eval)

lemma type_at_file: "stat_ok fs dir d \<Longrightarrow> (type_at fs dir d = DIRITEM_FILE) = is_regular_file fs (dir @ ''/'' @ d)"
  by (auto simp: stat_ok_def type_at_def is_regular_file_def itemType_def regdir)

lemma type_at_dir: "stat_ok fs dir d \<Longrightarrow> (type_at fs dir d = DIRITEM_DIR) = is_directory fs (dir @ ''/'' @ d)"
  by (auto simp: stat_ok_def type_at_def is_directory_def itemType_def regdir)

lemma map_find_insort:
  "map_of m (fst kv) = None \<Longrightarrow> map_of (insort_key fst kv m) k = (if k = fst kv then Some (snd kv) else map_of m k)"
  by (induction m) (auto split: if_splits)

lemma map_find_insert:
  "map_find (map_insert (k, v) m) k' =
     (if k' = k \<and> map_find m k = None then Some v else map_find m k')"
  by (auto simp: map_insert_def map_find_def map_find_insort split: option.splits)

lemma map_insert_idem: "map_insert kv (map_insert kv m) = map_insert kv m"
  by (cases kv) (auto simp: map_insert_def map_find_def map_find_insort split: option.splits)

lemma resize_std: "decodable fs path \<Longrightarrow> resize (fs_imread fs path) (STD_FACE_REC_SIZE, STD_FACE_REC_SIZE) = Inr std_face"
  by (simp add: decodable_def resize_def std_face_def STD_FACE_REC_SIZE_def)

lemma load_images_ok:
  "\<forall>p \<in> set ps. snd p = DIRITEM_FILE \<longrightarrow> decodable fs (dir @ ''/'' @ fst p) \<Longrightarrow>
   load_images fs dir i person ps fd =
     (None, fd\<lparr>images := images fd @ replicate (length (filter (\<lambda>p. snd p = DIRITEM_FILE) ps)) std_face,
               labels := labels fd @ replicate (length (filter (\<lambda>p. snd p = DIRITEM_FILE) ps)) i,
               names := (if filter (\<lambda>p. snd p = DIRITEM_FILE) ps = [] then names fd
                         else map_insert (i, person) (names fd))\<rparr>)"
proof (induction ps arbitrary: fd)
  case Nil
  then show ?case by simp
next
  case (Cons p ps)
  obtain f t where p: "p = (f, t)" by (cases p)
  show ?case
  proof (cases "t = DIRITEM_FILE")
    case False
    with Cons p show ?thesis by simp
  next
    case True
    with Cons.prems p have "decodable fs (dir @ ''/'' @ f)" by simp
    then have rs: "resize (fs_imread fs (dir @ ''/'' @ f)) (STD_FACE_REC_SIZE, STD_FACE_REC_SIZE) = Inr std_face"
      by (rule resize_std)
    from Cons.prems have "\<forall>p \<in> set ps. snd p = DIRITEM_FILE \<longrightarrow> decodable fs (dir @ ''/'' @ fst p)"
      by simp
    note IH = Cons.IH [OF this]
    show ?thesis using True p rs
      by (simp add: IH map_insert_idem replicate_append_same)
  qed
qed

lemma traverse_readable:
  "readable fs dir \<Longrightarrow>
   traverseDirectory fs dir items types =
     (0, visible_entries fs dir, map (type_at fs dir) (visible_entries fs dir))"
  by (auto simp: readable_def visible_entries_def traverseDirectory_readable listed_all_ok
           split: option.splits)

lemma traverse_unreadable:
  "\<not> readable fs dir \<Longrightarrow> fst (traverseDirectory fs dir items types) = - 1"
  by (auto simp: readable_def traverseDirectory_readable traverseDirectory_unreadable
           split: option.splits)

lemma readable_stat_ok:
  "readable fs dir \<Longrightarrow> d \<in> set (visible_entries fs dir) \<Longrightarrow> stat_ok fs dir d"
  by (auto simp: readable_def visible_entries_def list_all_iff split: option.splits)

lemma zip_map_same: "zip xs (map f xs) = map (\<lambda>x. (x, f x)) xs"
  by (induction xs) auto

lemma count_files:
  "readable fs dir \<Longrightarrow>
   filter (\<lambda>p. snd p = DIRITEM_FILE) (map (\<lambda>f. (f, type_at fs dir f)) (visible_entries fs dir)) =
   map (\<lambda>f. (f, type_at fs dir f)) (image_files fs dir)"
  by (auto simp: image_files_def filter_map comp_def type_at_file readable_stat_ok
           intro!: arg_cong [where f = "map _"] filter_cong)

lemma load_person_ok:
  assumes "loadable_person fs dir"
  shows "load_images fs dir i person
           (zip (visible_entries fs dir) (map (type_at fs dir) (visible_entries fs dir))) fd =
         (None, fd\<lparr>images := images fd @ replicate (length (image_files fs dir)) std_face,
                   labels := labels fd @ replicate (length (image_files fs dir)) i,
                   names := (if image_files fs dir = [] then names fd
                             else map_insert (i, person) (names fd))\<rparr>)"
proof -
  from assms have rd: "readable fs dir"
    and dec: "\<forall>f \<in> set (image_files fs dir). decodable fs (dir @ ''/'' @ f)"
    by (simp_all add: loadable_person_def list_all_iff)
  let ?ps = "map (\<lambda>f. (f, type_at fs dir f)) (visible_entries fs dir)"
  have "\<forall>p \<in> set ?ps. snd p = DIRITEM_FILE \<longrightarrow> decodable fs (dir @ ''/'' @ fst p)"
    using dec rd by (auto simp: image_files_def type_at_file readable_stat_ok)
  from load_images_ok [OF this, of i person fd] show ?thesis
    by (simp add: zip_map_same count_files [OF rd])
qed

lemma load_persons_ok:
  assumes "\<forall>d \<in> set ds. stat_ok fs faces d"
      and "\<forall>d \<in> set ds. is_directory fs (faces @ ''/'' @ d) \<longrightarrow> loadable_person fs (faces @ ''/'' @ d)"
  shows "\<exists>fd'. load_persons fs faces i (map (\<lambda>d. (d, type_at fs faces d)) ds) fd = (None, fd') \<and>
               images fd' = images fd @ replicate (length (labels_from fs faces i ds)) std_face \<and>
               labels fd' = labels fd @ labels_from fs faces i ds"
  using assms
proof (induction ds arbitrary: i fd)
  case Nil
  then show ?case by (simp add: labels_from_def)
next
  case (Cons d ds)
  have tail: "labels_from fs faces i (d # ds) =
          (if is_directory fs (faces @ ''/'' @ d)
           then replicate (length (image_files fs (faces @ ''/'' @ d))) (int i) else []) @
          labels_from fs faces (Suc i) ds"
    by (simp add: labels_from_def)
  from Cons.prems have ok: "stat_ok fs faces d" by simp
  from Cons.prems have
    IH: "\<And>i fd. \<exists>fd'. load_persons fs faces i (map (\<lambda>d. (d, type_at fs faces d)) ds) fd = (None, fd') \<and>
               images fd' = images fd @ replicate (length (labels_from fs faces i ds)) std_face \<and>
               labels fd' = labels fd @ labels_from fs faces i ds"
    using Cons.IH by simp
  show ?case
  proof (cases "is_directory fs (faces @ ''/'' @ d)")
    case False
    with ok have "type_at fs faces d \<noteq> DIRITEM_DIR" by (simp add: type_at_dir)
    with False tail IH [of "Suc i" fd] show ?thesis by simp
  next
    case True
    with ok have dir: "type_at fs faces d = DIRITEM_DIR" by (simp add: type_at_dir)
    from True Cons.prems have lp: "loadable_person fs (faces @ ''/'' @ d)" by simp
    then have rd: "readable fs (faces @ ''/'' @ d)" by (simp add: loadable_person_def)
    let ?fd1 = "fd\<lparr>images := images fd @ replicate (length (image_files fs (faces @ ''/'' @ d))) std_face,
                   labels := labels fd @ replicate (length (image_files fs (faces @ ''/'' @ d))) (int i),
                   names := (if image_files fs (faces @ ''/'' @ d) = [] then names fd
                             else map_insert (int i, d) (names fd))\<rparr>"
    from IH [of "Suc i" ?fd1] obtain fd' where
      run: "load_persons fs faces (Suc i) (map (\<lambda>d. (d, type_at fs faces d)) ds) ?fd1 = (None, fd')"
      and im: "images fd' = images ?fd1 @ replicate (length (labels_from fs faces (Suc i) ds)) std_face"
      and lb: "labels fd' = labels ?fd1 @ labels_from fs faces (Suc i) ds"
      by blast
    have "load_persons fs faces i (map (\<lambda>d. (d, type_at fs faces d)) (d # ds)) fd = (None, fd')"
      using dir run traverse_readable [OF rd, of "[]" "[]"] load_person_ok [OF lp, of "int i" d fd] by (simp add: Let_def)
    moreover have "images fd' = images fd @ replicate (length (labels_from fs faces i (d # ds))) std_face"
      using im True tail by (simp add: replicate_add)
    moreover have "labels fd' = labels fd @ labels_from fs faces i (d # ds)"
      using lb True tail by simp
    ultimately show ?thesis by blast
  qed
qed

lemma labels_from_Cons:
  "labels_from fs faces i (d # ds) =
          (if is_directory fs (faces @ ''/'' @ d)
           then replicate (length (image_files fs (faces @ ''/'' @ d))) (int i) else []) @
          labels_from fs faces (Suc i) ds"
  by (simp add: labels_from_def)

lemma length_labels_from:
  "length (labels_from fs faces i ds) =
   sum_list (map (\<lambda>d. length (image_files fs (faces @ ''/'' @ d)))
                 (filter (\<lambda>d. is_directory fs (faces @ ''/'' @ d)) ds))"
  by (induction ds arbitrary: i) (simp_all add: labels_from_Cons, simp add: labels_from_def)

lemma set_labels_from:
  "set (labels_from fs faces i ds) =
   {int (i + k) |k. k < length ds \<and> is_directory fs (faces @ ''/'' @ ds ! k) \<and>
                    image_files fs (faces @ ''/'' @ ds ! k) \<noteq> []}"
proof (induction ds arbitrary: i)
  case Nil
  then show ?case by (simp add: labels_from_def)
next
  case (Cons d ds)
  have split: "{int (i + k) |k. k < length (d # ds) \<and> is_directory fs (faces @ ''/'' @ (d # ds) ! k) \<and>
                    image_files fs (faces @ ''/'' @ (d # ds) ! k) \<noteq> []} =
        (if is_directory fs (faces @ ''/'' @ d) \<and> image_files fs (faces @ ''/'' @ d) \<noteq> [] then {int i} else {}) \<union>
        {int (Suc i + k) |k. k < length ds \<and> is_directory fs (faces @ ''/'' @ ds ! k) \<and>
                    image_files fs (faces @ ''/'' @ ds ! k) \<noteq> []}" (is "?A = ?B \<union> ?C")
  proof (intro set_eqI iffI)
    fix l assume "l \<in> ?A"
    then obtain k where k: "l = int (i + k)" "k < length (d # ds)"
      "is_directory fs (faces @ ''/'' @ (d # ds) ! k)" "image_files fs (faces @ ''/'' @ (d # ds) ! k) \<noteq> []"
      by blast
    show "l \<in> ?B \<union> ?C"
    proof (cases k)
      case 0
      with k show ?thesis by simp
    next
      case (Suc j)
      with k have "l = int (Suc i + j) \<and> j < length ds \<and> is_directory fs (faces @ ''/'' @ ds ! j) \<and>
                    image_files fs (faces @ ''/'' @ ds ! j) \<noteq> []" by simp
      then show ?thesis by blast
    qed
  next
    fix l assume "l \<in> ?B \<union> ?C"
    then consider "l \<in> ?B" | "l \<in> ?C" by blast
    then show "l \<in> ?A"
    proof cases
      case 1
      then have "l = int (i + 0) \<and> 0 < length (d # ds) \<and> is_directory fs (faces @ ''/'' @ (d # ds) ! 0) \<and>
                    image_files fs (faces @ ''/'' @ (d # ds) ! 0) \<noteq> []"
        by (simp split: if_splits)
      then show ?thesis by blast
    next
      case 2
      then obtain j where "l = int (Suc i + j)" "j < length ds" "is_directory fs (faces @ ''/'' @ ds ! j)"
                    "image_files fs (faces @ ''/'' @ ds ! j) \<noteq> []" by blast
      then have "l = int (i + Suc j) \<and> Suc j < length (d # ds) \<and> is_directory fs (faces @ ''/'' @ (d # ds) ! Suc j) \<and>
                    image_files fs (faces @ ''/'' @ (d # ds) ! Suc j) \<noteq> []" by simp
      then show ?thesis by blast
    qed
  qed
  have "set (labels_from fs faces i (d # ds)) = ?B \<union> set (labels_from fs faces (Suc i) ds)"
    by (auto simp: labels_from_Cons)
  with Cons.IH [of "Suc i"] split show ?case by simp
qed

lemma card_labels_from:
  "card (set (labels_from fs faces i ds)) =
   length (filter (\<lambda>d. is_directory fs (faces @ ''/'' @ d) \<and> image_files fs (faces @ ''/'' @ d) \<noteq> []) ds)"
proof (induction ds arbitrary: i)
  case Nil
  then show ?case by (simp add: labels_from_def)
next
  case (Cons d ds)
  have fresh: "int i \<notin> set (labels_from fs faces (Suc i) ds)"
    by (auto simp: set_labels_from)
  have "set (labels_from fs faces i (d # ds)) =
        (if is_directory fs (faces @ ''/'' @ d) \<and> image_files fs (faces @ ''/'' @ d) \<noteq> [] then {int i} else {}) \<union>
         set (labels_from fs faces (Suc i) ds)"
    by (auto simp: labels_from_Cons)
  with fresh Cons.IH [of "Suc i"] show ?case by simp
qed

lemma load_persons_names:
  assumes "\<forall>d \<in> set ds. stat_ok fs faces d"
      and "\<forall>d \<in> set ds. is_directory fs (faces @ ''/'' @ d) \<longrightarrow> loadable_person fs (faces @ ''/'' @ d)"
      and "\<forall>l \<ge> int i. map_find (names fd) l = None"
  shows "map_find (names (snd (load_persons fs faces i (map (\<lambda>d. (d, type_at fs faces d)) ds) fd))) l =
           (if l \<in> set (labels_from fs faces i ds) then Some (ds ! (nat l - i))
            else map_find (names fd) l)"
  using assms
proof (induction ds arbitrary: i fd)
  case Nil
  then show ?case by (simp add: labels_from_def)
next
  case (Cons d ds)
  from Cons.prems have ok: "stat_ok fs faces d" by simp
  have above: "int (Suc i) \<le> l'" if "l' \<in> set (labels_from fs faces (Suc i) ds)" for l'
    using that by (auto simp: set_labels_from)
  show ?case
  proof (cases "is_directory fs (faces @ ''/'' @ d)")
    case False
    with ok have nd: "type_at fs faces d \<noteq> DIRITEM_DIR" by (simp add: type_at_dir)
    from Cons.prems(3) have "\<forall>l \<ge> int (Suc i). map_find (names fd) l = None" by simp
    from Cons.IH [OF _ _ this] Cons.prems(1,2)
    have "map_find (names (snd (load_persons fs faces (Suc i) (map (\<lambda>d. (d, type_at fs faces d)) ds) fd))) l =
           (if l \<in> set (labels_from fs faces (Suc i) ds) then Some (ds ! (nat l - Suc i))
            else map_find (names fd) l)" by simp
    moreover have "(d # ds) ! (nat l - i) = ds ! (nat l - Suc i)"
      if "l \<in> set (labels_from fs faces (Suc i) ds)"
    proof -
      from above [OF that] have "nat l - i = Suc (nat l - Suc i)" by linarith
      then show ?thesis by simp
    qed
    ultimately show ?thesis using False nd by (simp add: labels_from_Cons)
  next
    case True
    with ok have dir: "type_at fs faces d = DIRITEM_DIR" by (simp add: type_at_dir)
    from True Cons.prems have lp: "loadable_person fs (faces @ ''/'' @ d)" by simp
    then have rd: "readable fs (faces @ ''/'' @ d)" by (simp add: loadable_person_def)
    let ?fd1 = "fd\<lparr>images := images fd @ replicate (length (image_files fs (faces @ ''/'' @ d))) std_face,
                   labels := labels fd @ replicate (length (image_files fs (faces @ ''/'' @ d))) (int i),
                   names := (if image_files fs (faces @ ''/'' @ d) = [] then names fd
                             else map_insert (int i, d) (names fd))\<rparr>"
    have step: "load_persons fs faces i (map (\<lambda>d. (d, type_at fs faces d)) (d # ds)) fd =
                load_persons fs faces (Suc i) (map (\<lambda>d. (d, type_at fs faces d)) ds) ?fd1"
      using dir traverse_readable [OF rd, of "[]" "[]"] load_person_ok [OF lp, of "int i" d fd]
      by (simp add: Let_def)
    have inv: "\<forall>l \<ge> int (Suc i). map_find (names ?fd1) l = None"
      using Cons.prems(3) by (simp add: map_find_insert)
    from Cons.IH [OF _ _ inv] Cons.prems(1,2)
    have IH: "map_find (names (snd (load_persons fs faces (Suc i) (map (\<lambda>d. (d, type_at fs faces d)) ds) ?fd1))) l =
           (if l \<in> set (labels_from fs faces (Suc i) ds) then Some (ds ! (nat l - Suc i))
            else map_find (names ?fd1) l)" by simp
    have nth: "(d # ds) ! (nat l - i) = ds ! (nat l - Suc i)"
      if "l \<in> set (labels_from fs faces (Suc i) ds)"
    proof -
      from above [OF that] have "nat l - i = Suc (nat l - Suc i)" by linarith
      then show ?thesis by simp
    qed
    have here: "map_find (names ?fd1) l =
                  (if l = int i \<and> image_files fs (faces @ ''/'' @ d) \<noteq> [] then Some d
                   else map_find (names fd) l)"
      using Cons.prems(3) by (simp add: map_find_insert)
    have notin: "int i \<notin> set (labels_from fs faces (Suc i) ds)"
      using above by fastforce
    show ?thesis
      unfolding step IH here using True nth notin
      by (auto simp: labels_from_Cons)
  qed
qed

lemma valid_layout_parts:
  assumes "valid_layout fs datapath"
  shows "readable fs (datapath @ ''/faces'')"
    and "\<forall>d \<in> set (visible_entries fs (datapath @ ''/faces'')). stat_ok fs (datapath @ ''/faces'') d"
    and "\<forall>d \<in> set (visible_entries fs (datapath @ ''/faces'')).
           is_directory fs ((datapath @ ''/faces'') @ ''/'' @ d) \<longrightarrow>
           loadable_person fs ((datapath @ ''/faces'') @ ''/'' @ d)"
  using assms
  by (auto simp: valid_layout_def Let_def list_all_iff person_dirs_def readable_stat_ok)

lemma cleared: "(fd0 :: face_data)\<lparr>images := [], labels := [], names := []\<rparr> = no_data"
  by (cases fd0) (simp add: no_data_def)

lemma loadFaceData_valid:
  assumes "valid_layout fs datapath"
  shows "loadFaceData fs datapath fd0 =
           load_persons fs (datapath @ ''/faces'') 0
             (map (\<lambda>d. (d, type_at fs (datapath @ ''/faces'') d))
                  (visible_entries fs (datapath @ ''/faces''))) no_data"
  using traverse_readable [OF valid_layout_parts(1) [OF assms], of "[]" "[]"]
  by (simp add: loadFaceData_def Let_def zip_map_same cleared)

text \<open>
  C1, as the code has it. For every valid two-level layout, \<open>loadFaceData\<close> returns
  without an exception; the number of samples is the sum, over the person directories
  that \<open>faces\<close> enumerates, of the number of visible regular files in each; there is one
  label per sample; every image is 64 by 64. The number of distinct labels is the
  number of person directories that hold at least one such file, which is the number
  of person directories only when none of them is empty.
\<close>

theorem loadFaceData_counts:
  assumes "valid_layout fs datapath"
  shows "fst (loadFaceData fs datapath fd0) = None \<and>
         length (images (snd (loadFaceData fs datapath fd0))) =
           sum_list (map (\<lambda>d. length (image_files fs ((datapath @ ''/faces'') @ ''/'' @ d)))
                         (person_dirs fs (datapath @ ''/faces''))) \<and>
         length (labels (snd (loadFaceData fs datapath fd0))) =
           length (images (snd (loadFaceData fs datapath fd0))) \<and>
         card (set (labels (snd (loadFaceData fs datapath fd0)))) =
           length (filter (\<lambda>d. image_files fs ((datapath @ ''/faces'') @ ''/'' @ d) \<noteq> [])
                          (person_dirs fs (datapath @ ''/faces''))) \<and>
         (\<forall>img \<in> set (images (snd (loadFaceData fs datapath fd0))). rows img = 64 \<and> cols img = 64)"
proof -
  let ?faces = "datapath @ ''/faces''"
  let ?ds = "visible_entries fs ?faces"
  from load_persons_ok [OF valid_layout_parts(2,3) [OF assms], of 0 no_data]
  obtain fd where run: "load_persons fs ?faces 0 (map (\<lambda>d. (d, type_at fs ?faces d)) ?ds) no_data = (None, fd)"
    and im: "images fd = replicate (length (labels_from fs ?faces 0 ?ds)) std_face"
    and lb: "labels fd = labels_from fs ?faces 0 ?ds"
    by (auto simp: no_data_def)
  have res: "loadFaceData fs datapath fd0 = (None, fd)"
    using run by (simp add: loadFaceData_valid [OF assms])
  have "length (images fd) =
          sum_list (map (\<lambda>d. length (image_files fs (?faces @ ''/'' @ d))) (person_dirs fs ?faces))"
    using im by (simp add: length_labels_from person_dirs_def)
  moreover have "length (labels fd) = length (images fd)"
    using im lb by simp
  moreover have "card (set (labels fd)) =
          length (filter (\<lambda>d. image_files fs (?faces @ ''/'' @ d) \<noteq> []) (person_dirs fs ?faces))"
    using lb by (simp add: card_labels_from person_dirs_def conj_commute)
  moreover have "\<forall>img \<in> set (images fd). rows img = 64 \<and> cols img = 64"
    using im by (auto simp: std_face_def STD_FACE_REC_SIZE_def)
  ultimately show ?thesis using res by simp
qed

theorem loadFaceData_counts_witness:
  "valid_layout fs_demo ''/db'' \<and>
   person_dirs fs_demo ''/db/faces'' = [''alice'', ''bob''] \<and>
   fst (loadFaceData fs_demo ''/db'' no_data) = None \<and>
   length (images (snd (loadFaceData fs_demo ''/db'' no_data))) = 3 \<and>
   card (set (labels (snd (loadFaceData fs_demo ''/db'' no_data)))) = 2"
proof -
  have v: "valid_layout fs_demo ''/db''" by code_simp
  have p: "person_dirs fs_demo ''/db/faces'' = [''alice'', ''bob'']" by code_simp
  have a: "length (image_files fs_demo ''/db/faces/alice'') = 2" by code_simp
  have b: "length (image_files fs_demo ''/db/faces/bob'') = 1" by code_simp
  have a': "image_files fs_demo ''/db/faces/alice'' \<noteq> []" using a by auto
  have b': "image_files fs_demo ''/db/faces/bob'' \<noteq> []" using b by auto
  from loadFaceData_counts [OF v, of no_data] v p a b a' b' show ?thesis by simp
qed

text \<open>
  The claim as written fails on a layout with an empty person directory: two person
  directories, one distinct label.
\<close>

theorem loadFaceData_counts_counterexample:
  "valid_layout fs_empty_person ''/db'' \<and>
   person_dirs fs_empty_person ''/db/faces'' = [''alice'', ''bob''] \<and>
   loadFaceData fs_empty_person ''/db'' no_data =
     (None, \<lparr>images = [\<lparr>rows = 64, cols = 64\<rparr>], labels = [0], names = [(0, ''alice'')]\<rparr>) \<and>
   card (set [0 :: int]) \<noteq> 2"
proof -
  have "valid_layout fs_empty_person ''/db''" by code_simp
  moreover have "person_dirs fs_empty_person ''/db/faces'' = [''alice'', ''bob'']" by code_simp
  moreover have "loadFaceData fs_empty_person ''/db'' no_data =
     (None, \<lparr>images = [\<lparr>rows = 64, cols = 64\<rparr>], labels = [0], names = [(0, ''alice'')]\<rparr>)"
    by code_simp
  ultimately show ?thesis by simp
qed

text \<open>
  C2, as the code has it. For every valid layout, the label of a person directory is
  its position among all visible entries of \<open>faces\<close>, regular files and other
  non-directories counted: the labels used are the positions of the person
  directories that hold at least one visible regular file, and \<open>names\<close> maps each of
  them to the entry at that position. The labels are \<open>0, ..., N - 1\<close> when every
  visible entry of \<open>faces\<close> is a person directory with at least one such file.
\<close>

theorem loadFaceData_labels:
  assumes "valid_layout fs datapath"
  shows "set (labels (snd (loadFaceData fs datapath fd0))) =
           {int k |k. k < length (visible_entries fs (datapath @ ''/faces'')) \<and>
                      is_directory fs ((datapath @ ''/faces'') @ ''/'' @
                                       visible_entries fs (datapath @ ''/faces'') ! k) \<and>
                      image_files fs ((datapath @ ''/faces'') @ ''/'' @
                                      visible_entries fs (datapath @ ''/faces'') ! k) \<noteq> []} \<and>
         (\<forall>l. map_find (names (snd (loadFaceData fs datapath fd0))) l =
                (if l \<in> set (labels (snd (loadFaceData fs datapath fd0)))
                 then Some (visible_entries fs (datapath @ ''/faces'') ! nat l) else None)) \<and>
         ((\<forall>d \<in> set (visible_entries fs (datapath @ ''/faces'')).
              is_directory fs ((datapath @ ''/faces'') @ ''/'' @ d) \<and>
              image_files fs ((datapath @ ''/faces'') @ ''/'' @ d) \<noteq> []) \<longrightarrow>
          set (labels (snd (loadFaceData fs datapath fd0))) =
            {0 ..< int (length (person_dirs fs (datapath @ ''/faces'')))})"
proof -
  let ?faces = "datapath @ ''/faces''"
  let ?ds = "visible_entries fs ?faces"
  let ?fd = "snd (loadFaceData fs datapath fd0)"
  from load_persons_ok [OF valid_layout_parts(2,3) [OF assms], of 0 no_data]
  have lb: "labels ?fd = labels_from fs ?faces 0 ?ds"
    by (auto simp: no_data_def loadFaceData_valid [OF assms])
  have A: "set (labels ?fd) =
           {int k |k. k < length ?ds \<and> is_directory fs (?faces @ ''/'' @ ?ds ! k) \<and>
                      image_files fs (?faces @ ''/'' @ ?ds ! k) \<noteq> []}"
    unfolding lb set_labels_from by simp
  have "\<forall>l \<ge> int 0. map_find (names no_data) l = None"
    by (simp add: no_data_def map_find_def)
  from load_persons_names [OF valid_layout_parts(2,3) [OF assms] this]
  have nm: "map_find (names ?fd) l =
              (if l \<in> set (labels_from fs ?faces 0 ?ds) then Some (?ds ! (nat l - 0))
               else map_find (names no_data) l)" for l
    by (simp only: loadFaceData_valid [OF assms])
  have "map_find (names no_data) l = None" for l
    by (simp add: no_data_def map_find_def)
  with nm lb
  have B: "\<forall>l. map_find (names ?fd) l = (if l \<in> set (labels ?fd) then Some (?ds ! nat l) else None)"
    by simp
  have C: "set (labels ?fd) = {0 ..< int (length (person_dirs fs ?faces))}"
    if all: "\<forall>d \<in> set ?ds. is_directory fs (?faces @ ''/'' @ d) \<and> image_files fs (?faces @ ''/'' @ d) \<noteq> []"
  proof -
    from all have pd: "person_dirs fs ?faces = ?ds"
      by (simp add: person_dirs_def)
    from all have "{int k |k. k < length ?ds \<and> is_directory fs (?faces @ ''/'' @ ?ds ! k) \<and>
                      image_files fs (?faces @ ''/'' @ ?ds ! k) \<noteq> []} = {int k |k. k < length ?ds}"
      by auto
    also have "\<dots> = {0 ..< int (length ?ds)}"
    proof (intro set_eqI iffI)
      fix l assume "l \<in> {int k |k. k < length ?ds}"
      then show "l \<in> {0 ..< int (length ?ds)}" by auto
    next
      fix l assume "l \<in> {0 ..< int (length ?ds)}"
      then have "l = int (nat l) \<and> nat l < length ?ds" by auto
      then show "l \<in> {int k |k. k < length ?ds}" by blast
    qed
    finally show ?thesis using A pd by simp
  qed
  from A B C show ?thesis by blast
qed

theorem loadFaceData_labels_witness:
  "valid_layout fs_demo ''/db'' \<and>
   visible_entries fs_demo ''/db/faces'' = [''alice'', ''bob''] \<and>
   set (labels (snd (loadFaceData fs_demo ''/db'' no_data))) = {0 ..< 2} \<and>
   map_find (names (snd (loadFaceData fs_demo ''/db'' no_data))) 1 = Some ''bob''"
proof -
  have v: "valid_layout fs_demo ''/db''" by code_simp
  have e: "visible_entries fs_demo ''/db/faces'' = [''alice'', ''bob'']" by code_simp
  have p: "person_dirs fs_demo ''/db/faces'' = [''alice'', ''bob'']" by code_simp
  have d: "is_directory fs_demo ''/db/faces/alice'' \<and> is_directory fs_demo ''/db/faces/bob''"
    by code_simp
  have a: "length (image_files fs_demo ''/db/faces/alice'') = 2" by code_simp
  have b: "length (image_files fs_demo ''/db/faces/bob'') = 1" by code_simp
  have a': "image_files fs_demo ''/db/faces/alice'' \<noteq> []" using a by auto
  have b': "image_files fs_demo ''/db/faces/bob'' \<noteq> []" using b by auto
  have full: "\<forall>d \<in> set (visible_entries fs_demo (''/db'' @ ''/faces'')).
           is_directory fs_demo ((''/db'' @ ''/faces'') @ ''/'' @ d) \<and>
           image_files fs_demo ((''/db'' @ ''/faces'') @ ''/'' @ d) \<noteq> []"
    using e d a' b' by simp
  note inst = loadFaceData_labels [OF v, of no_data]
  from inst [THEN conjunct2, THEN conjunct2] full p
  have s: "set (labels (snd (loadFaceData fs_demo ''/db'' no_data))) = {0 ..< 2}"
    by simp
  from inst [THEN conjunct2, THEN conjunct1] e
  have n: "\<forall>l. map_find (names (snd (loadFaceData fs_demo ''/db'' no_data))) l =
                (if l \<in> set (labels (snd (loadFaceData fs_demo ''/db'' no_data)))
                 then Some ([''alice'', ''bob''] ! nat l) else None)"
    by simp
  from n s have "map_find (names (snd (loadFaceData fs_demo ''/db'' no_data))) 1 = Some ''bob''"
    by simp
  with v e s show ?thesis by blast
qed

text \<open>
  The claim as written fails when a regular file is enumerated before a person
  directory: one person directory, and the label used is 1, not 0.
\<close>

theorem loadFaceData_labels_counterexample:
  "valid_layout fs_notes ''/db'' \<and>
   person_dirs fs_notes ''/db/faces'' = [''alice''] \<and>
   loadFaceData fs_notes ''/db'' no_data =
     (None, \<lparr>images = [\<lparr>rows = 64, cols = 64\<rparr>], labels = [1], names = [(1, ''alice'')]\<rparr>) \<and>
   set [1 :: int] \<noteq> {0}"
proof -
  have "valid_layout fs_notes ''/db''" by code_simp
  moreover have "person_dirs fs_notes ''/db/faces'' = [''alice'']" by code_simp
  moreover have "loadFaceData fs_notes ''/db'' no_data =
     (None, \<lparr>images = [\<lparr>rows = 64, cols = 64\<rparr>], labels = [1], names = [(1, ''alice'')]\<rparr>)"
    by code_simp
  ultimately show ?thesis by simp
qed

section \<open>The loader on an unreadable directory\<close>

lemma load_persons_append:
  "load_persons fs faces i (xs @ ys) fd =
     (case load_persons fs faces i xs fd of
        (None, fd') \<Rightarrow> load_persons fs faces (i + length xs) ys fd'
      | (Some e, fd') \<Rightarrow> (Some e, fd'))"
proof (induction xs arbitrary: i fd)
  case Nil
  then show ?case by simp
next
  case (Cons p xs)
  obtain d t where p: "p = (d, t)" by (cases p)
  show ?case
    unfolding p
    by (simp add: Cons.IH Let_def split: prod.splits option.splits)
qed

lemma load_persons_stops:
  assumes "\<not> readable fs (faces @ ''/'' @ d)"
  shows "load_persons fs faces i ((d, DIRITEM_DIR) # rest) fd =
           (Some (''Cannot read the face image directory '' @ (faces @ ''/'' @ d) @ ''.''), fd)"
proof -
  obtain rc a b where t: "traverseDirectory fs (faces @ ''/'' @ d) [] [] = (rc, a, b)"
    by (cases "traverseDirectory fs (faces @ ''/'' @ d) [] []")
  with traverse_unreadable [OF assms, of "[]" "[]"] have "rc = - 1" by simp
  with t show ?thesis by (simp add: Let_def)
qed

lemma load_persons_unreadable:
  assumes "(d, DIRITEM_DIR) \<in> set ps" and "\<not> readable fs (faces @ ''/'' @ d)"
  shows "fst (load_persons fs faces i ps fd) \<noteq> None"
  using assms(1)
proof (induction ps arbitrary: i fd)
  case Nil
  then show ?case by simp
next
  case (Cons p ps)
  obtain e t where p: "p = (e, t)" by (cases p)
  show ?case
  proof (cases "p = (d, DIRITEM_DIR)")
    case True
    then show ?thesis by (simp only: load_persons_stops [OF assms(2)]) simp
  next
    case False
    with Cons.prems have "(d, DIRITEM_DIR) \<in> set ps" by simp
    note IH = Cons.IH [OF this]
    show ?thesis
      unfolding p using IH
      by (auto simp: Let_def split: prod.splits option.splits)
  qed
qed

text \<open>
  C4, as the code has it. When the faces directory cannot be read, \<open>loadFaceData\<close>
  raises its exception with the three containers empty. When a person directory that
  \<open>faces\<close> enumerates cannot be read, \<open>loadFaceData\<close> raises an exception as well; if
  the person directories enumerated before it are loadable, the exception is the one
  for that directory, and at that moment the containers hold exactly the samples of
  the directories enumerated before it: the call leaves a partial dataset behind.
\<close>

theorem loadFaceData_unreadable:
  assumes "faces = datapath @ ''/faces''"
  shows "(\<not> readable fs faces \<longrightarrow>
            loadFaceData fs datapath fd0 =
              (Some (''Cannot read the face database directory '' @ faces @ ''.''), no_data)) \<and>
         (readable fs faces \<longrightarrow> (\<exists>d \<in> set (person_dirs fs faces). \<not> readable fs (faces @ ''/'' @ d)) \<longrightarrow>
            fst (loadFaceData fs datapath fd0) \<noteq> None) \<and>
         (readable fs faces \<longrightarrow> visible_entries fs faces = before @ d # rest \<longrightarrow>
          is_directory fs (faces @ ''/'' @ d) \<longrightarrow> \<not> readable fs (faces @ ''/'' @ d) \<longrightarrow>
          (\<forall>e \<in> set before. is_directory fs (faces @ ''/'' @ e) \<longrightarrow> loadable_person fs (faces @ ''/'' @ e)) \<longrightarrow>
            fst (loadFaceData fs datapath fd0) =
              Some (''Cannot read the face image directory '' @ (faces @ ''/'' @ d) @ ''.'') \<and>
            labels (snd (loadFaceData fs datapath fd0)) = labels_from fs faces 0 before \<and>
            images (snd (loadFaceData fs datapath fd0)) =
              replicate (length (labels_from fs faces 0 before)) std_face)"
proof -
  have one: "loadFaceData fs datapath fd0 =
          (Some (''Cannot read the face database directory '' @ faces @ ''.''), no_data)"
    if nr: "\<not> readable fs faces"
  proof -
    obtain rc a b where t: "traverseDirectory fs faces [] [] = (rc, a, b)"
      by (cases "traverseDirectory fs faces [] []")
    with traverse_unreadable [OF nr, of "[]" "[]"] have "rc = - 1" by simp
    with t show ?thesis
      by (simp add: loadFaceData_def Let_def assms [symmetric] cleared)
  qed
  have run: "loadFaceData fs datapath fd0 =
               load_persons fs faces 0 (map (\<lambda>d. (d, type_at fs faces d)) (visible_entries fs faces)) no_data"
    if rd: "readable fs faces"
    using traverse_readable [OF rd, of "[]" "[]"]
    by (simp add: loadFaceData_def Let_def assms [symmetric] zip_map_same cleared)
  have two: "fst (loadFaceData fs datapath fd0) \<noteq> None"
    if rd: "readable fs faces"
      and ex: "\<exists>d \<in> set (person_dirs fs faces). \<not> readable fs (faces @ ''/'' @ d)"
  proof -
    from ex obtain d where d: "d \<in> set (visible_entries fs faces)"
      "is_directory fs (faces @ ''/'' @ d)" "\<not> readable fs (faces @ ''/'' @ d)"
      by (auto simp: person_dirs_def)
    from d(1,2) rd have "type_at fs faces d = DIRITEM_DIR"
      by (simp add: type_at_dir readable_stat_ok)
    with d(1) have "(d, DIRITEM_DIR) \<in> set (map (\<lambda>d. (d, type_at fs faces d)) (visible_entries fs faces))"
      by force
    from load_persons_unreadable [OF this d(3)] show ?thesis
      by (simp add: run [OF rd])
  qed
  have three: "fst (loadFaceData fs datapath fd0) =
              Some (''Cannot read the face image directory '' @ (faces @ ''/'' @ d) @ ''.'') \<and>
            labels (snd (loadFaceData fs datapath fd0)) = labels_from fs faces 0 before \<and>
            images (snd (loadFaceData fs datapath fd0)) =
              replicate (length (labels_from fs faces 0 before)) std_face"
    if rd: "readable fs faces"
      and vis: "visible_entries fs faces = before @ d # rest"
      and isd: "is_directory fs (faces @ ''/'' @ d)"
      and unr: "\<not> readable fs (faces @ ''/'' @ d)"
      and pre: "\<forall>e \<in> set before. is_directory fs (faces @ ''/'' @ e) \<longrightarrow> loadable_person fs (faces @ ''/'' @ e)"
  proof -
    have ok: "\<forall>e \<in> set before. stat_ok fs faces e"
      using rd vis by (simp add: readable_stat_ok)
    from load_persons_ok [OF ok pre, of 0 no_data] obtain fd1 where
      fd1: "load_persons fs faces 0 (map (\<lambda>d. (d, type_at fs faces d)) before) no_data = (None, fd1)"
      and im: "images fd1 = replicate (length (labels_from fs faces 0 before)) std_face"
      and lb: "labels fd1 = labels_from fs faces 0 before"
      by (auto simp: no_data_def)
    from isd rd vis have dir: "type_at fs faces d = DIRITEM_DIR"
      by (simp add: type_at_dir readable_stat_ok)
    let ?f = "\<lambda>d. (d, type_at fs faces d)"
    have cut: "map ?f (before @ d # rest) = map ?f before @ (d, DIRITEM_DIR) # map ?f rest"
      using dir by simp
    have "load_persons fs faces 0 (map ?f before @ (d, DIRITEM_DIR) # map ?f rest) no_data =
            load_persons fs faces (0 + length (map ?f before)) ((d, DIRITEM_DIR) # map ?f rest) fd1"
      by (simp only: load_persons_append fd1 prod.case option.case)
    also have "\<dots> = (Some (''Cannot read the face image directory '' @ (faces @ ''/'' @ d) @ ''.''), fd1)"
      by (rule load_persons_stops [OF unr])
    finally have "loadFaceData fs datapath fd0 =
            (Some (''Cannot read the face image directory '' @ (faces @ ''/'' @ d) @ ''.''), fd1)"
      unfolding run [OF rd] vis cut .
    with im lb show ?thesis by simp
  qed
  from one two three show ?thesis by blast
qed

theorem loadFaceData_unreadable_witness:
  "readable fs_locked ''/db/faces'' \<and> \<not> readable fs_locked ''/db/faces/bob'' \<and>
   fst (loadFaceData fs_locked ''/db'' no_data) =
     Some ''Cannot read the face image directory /db/faces/bob.'' \<and>
   labels (snd (loadFaceData fs_locked ''/db'' no_data)) = [0] \<and>
   images (snd (loadFaceData fs_locked ''/db'' no_data)) = [std_face] \<and>
   \<not> readable fs_locked ''/nowhere/faces'' \<and>
   loadFaceData fs_locked ''/nowhere'' no_data =
     (Some ''Cannot read the face database directory /nowhere/faces.'', no_data)"
proof -
  have f: "''/db/faces'' = ''/db'' @ ''/faces''" by simp
  have rd: "readable fs_locked ''/db/faces''" by code_simp
  have vis: "visible_entries fs_locked ''/db/faces'' = [''alice''] @ ''bob'' # []" by code_simp
  have isd: "is_directory fs_locked (''/db/faces'' @ ''/'' @ ''bob'')" by code_simp
  have unr: "\<not> readable fs_locked (''/db/faces'' @ ''/'' @ ''bob'')" by code_simp
  have pre: "\<forall>e \<in> set [''alice'']. is_directory fs_locked (''/db/faces'' @ ''/'' @ e) \<longrightarrow>
                loadable_person fs_locked (''/db/faces'' @ ''/'' @ e)" by code_simp
  have lf: "labels_from fs_locked ''/db/faces'' 0 [''alice''] = [0]" by code_simp
  from loadFaceData_unreadable [OF f, of fs_locked no_data "[''alice'']" "''bob''" "[]",
         THEN conjunct2, THEN conjunct2] rd vis isd unr pre lf
  have A: "fst (loadFaceData fs_locked ''/db'' no_data) =
     Some ''Cannot read the face image directory /db/faces/bob.'' \<and>
   labels (snd (loadFaceData fs_locked ''/db'' no_data)) = [0] \<and>
   images (snd (loadFaceData fs_locked ''/db'' no_data)) = [std_face]"
    by simp
  have g: "''/nowhere/faces'' = ''/nowhere'' @ ''/faces''" by simp
  have nr: "\<not> readable fs_locked ''/nowhere/faces''" by code_simp
  from loadFaceData_unreadable [OF g, of fs_locked no_data, THEN conjunct1] nr
  have B: "loadFaceData fs_locked ''/nowhere'' no_data =
     (Some ''Cannot read the face database directory /nowhere/faces.'', no_data)"
    by simp
  from rd unr A nr B show ?thesis by simp
qed

text \<open>
  The claim as written fails when the unreadable person directory is not the first:
  the exception is raised with one sample of \<open>alice\<close> in the containers.
\<close>

theorem loadFaceData_unreadable_counterexample:
  "is_directory fs_locked ''/db/faces/bob'' \<and> fs_opendir fs_locked ''/db/faces/bob'' = None \<and>
   loadFaceData fs_locked ''/db'' no_data =
     (Some ''Cannot read the face image directory /db/faces/bob.'',
      \<lparr>images = [\<lparr>rows = 64, cols = 64\<rparr>], labels = [0], names = [(0, ''alice'')]\<rparr>)"
proof -
  have "is_directory fs_locked ''/db/faces/bob''" by code_simp
  moreover have "fs_opendir fs_locked ''/db/faces/bob'' = None" by code_simp
  moreover have "loadFaceData fs_locked ''/db'' no_data =
     (Some ''Cannot read the face image directory /db/faces/bob.'',
      \<lparr>images = [\<lparr>rows = 64, cols = 64\<rparr>], labels = [0], names = [(0, ''alice'')]\<rparr>)"
    by code_simp
  ultimately show ?thesis by simp
qed

section \<open>Properties of the information files\<close>

lemma traverse_listed:
  "snd (traverseDirectory fs dir a b) =
     (listed_entries fs dir, map (type_at fs dir) (listed_entries fs dir))"
  by (cases "fs_opendir fs dir")
     (simp_all add: listed_entries_def traverseDirectory_unreadable traverseDirectory_readable)

lemma listed_entries_stat_ok: "d \<in> set (listed_entries fs dir) \<Longrightarrow> stat_ok fs dir d"
  by (auto simp: listed_entries_def listed_stat_ok split: option.splits)

lemma join_commas_Cons:
  "join_commas (x # xs) = x @ (if xs = [] then [] else '','' @ join_commas xs)"
  by (cases xs) simp_all

lemma protrait_paths_closed:
  "protrait_paths dir ps first ss =
     ss @ (if filter (\<lambda>p. snd p = DIRITEM_FILE) ps = [] then []
           else (if first then [] else '','') @
                join_commas (map (\<lambda>p. quoted (dir @ ''/'' @ fst p))
                                 (filter (\<lambda>p. snd p = DIRITEM_FILE) ps)))"
proof (induction ps arbitrary: first ss)
  case Nil
  then show ?case by simp
next
  case (Cons p ps)
  obtain f t where p: "p = (f, t)" by (cases p)
  show ?case
    unfolding p
    by (simp add: Cons.IH join_commas_Cons quoted_def Let_def)
qed

lemma find_protraits_closed:
  "find_protraits fs dp name (map (\<lambda>d. (d, type_at fs dp d)) ds) ss =
     (if name \<in> set ds \<and> type_at fs dp name = DIRITEM_DIR
      then protrait_paths (dp @ ''/'' @ name)
             (zip (listed_entries fs (dp @ ''/'' @ name))
                  (map (type_at fs (dp @ ''/'' @ name)) (listed_entries fs (dp @ ''/'' @ name))))
             True ss
      else ss)"
proof (induction ds)
  case Nil
  then show ?case by simp
next
  case (Cons d ds)
  obtain rc a b where t: "traverseDirectory fs (dp @ ''/'' @ name) [] [] = (rc, a, b)"
    by (cases "traverseDirectory fs (dp @ ''/'' @ name) [] []")
  with traverse_listed [of fs "dp @ ''/'' @ name" "[]" "[]"]
  have "a = listed_entries fs (dp @ ''/'' @ name)"
    "b = map (type_at fs (dp @ ''/'' @ name)) (listed_entries fs (dp @ ''/'' @ name))"
    by simp_all
  with t Cons.IH show ?case by (auto simp: Let_def)
qed

lemma listed_files:
  "filter (\<lambda>p. snd p = DIRITEM_FILE) (map (\<lambda>f. (f, type_at fs dir f)) (listed_entries fs dir)) =
   map (\<lambda>f. (f, type_at fs dir f)) (protrait_files fs dir)"
  by (auto simp: protrait_files_def filter_map comp_def type_at_file listed_entries_stat_ok
           intro!: arg_cong [where f = "map _"] filter_cong)

lemma Name2Protraits_stream_closed:
  "Name2Protraits_stream fs dir_data name =
     (if protrait_dir_listed fs dir_data name
      then join_commas (map (\<lambda>f. quoted ((dir_data @ ''/protraits'') @ ''/'' @ name @ ''/'' @ f))
                            (protrait_files fs ((dir_data @ ''/protraits'') @ ''/'' @ name)))
      else [])"
proof -
  let ?dp = "dir_data @ ''/protraits''"
  obtain rc where t: "traverseDirectory fs ?dp [] [] =
      (rc, listed_entries fs ?dp, map (type_at fs ?dp) (listed_entries fs ?dp))"
    using traverse_listed [of fs ?dp "[]" "[]"]
    by (cases "traverseDirectory fs ?dp [] []") simp
  have dir: "(type_at fs ?dp name = DIRITEM_DIR) = is_directory fs (?dp @ ''/'' @ name)"
    if "name \<in> set (listed_entries fs ?dp)"
    using that by (simp add: type_at_dir listed_entries_stat_ok)
  have nil: "(map (\<lambda>f. (f, type_at fs dir f)) (protrait_files fs dir) = []) = (protrait_files fs dir = [])" for dir
    by simp
  show ?thesis
    using dir
    by (auto simp: Name2Protraits_stream_def Let_def t zip_map_same find_protraits_closed
                   protrait_dir_listed_def protrait_paths_closed listed_files comp_def)
qed

lemma first_token_plain:
  "ss = [] \<or> \<not> isspace (hd ss) \<Longrightarrow> first_token ss = up_to_space ss"
  by (cases ss) (auto simp: first_token_def up_to_space_def)

lemma not_isspace_dquote: "\<not> isspace dquote"
  by (simp add: isspace_def dquote_def)

lemma not_isspace_brace: "\<not> isspace (CHR ''{'')"
  by (simp add: isspace_def)

lemma join_commas_quoted_hd:
  "join_commas (map (\<lambda>f. quoted (g f)) xs) = [] \<or> hd (join_commas (map (\<lambda>f. quoted (g f)) xs)) = dquote"
  by (cases xs) (auto simp: join_commas_Cons quoted_def)

lemma Name2Protraits_stream_hd:
  "Name2Protraits_stream fs dir_data name = [] \<or> \<not> isspace (hd (Name2Protraits_stream fs dir_data name))"
proof (cases "protrait_dir_listed fs dir_data name")
  case False
  then show ?thesis by (simp add: Name2Protraits_stream_closed)
next
  case True
  from join_commas_quoted_hd
         [of "\<lambda>f. (dir_data @ ''/protraits'') @ ''/'' @ name @ ''/'' @ f"
             "protrait_files fs ((dir_data @ ''/protraits'') @ ''/'' @ name)"]
       not_isspace_dquote True
  show ?thesis
    unfolding Name2Protraits_stream_closed by (simp only: if_True) metis
qed

lemma recognize_face_appends:
  "recognize_face cv mdl gray sz i face_i st = Inr st' \<Longrightarrow>
   \<exists>more. snd st' = snd st @ (if 0 < i then '','' else []) @ ''{'' @ more"
  by (auto simp: recognize_face_def json_face_def Let_def split: sum.splits prod.splits)

lemma recognize_faces_appends:
  "recognize_faces cv mdl gray sz i faces st = Inr st' \<Longrightarrow> \<exists>more. snd st' = snd st @ more"
proof (induction faces arbitrary: i st)
  case Nil
  then show ?case by simp
next
  case (Cons f faces)
  from Cons.prems obtain st1 where
    one: "recognize_face cv mdl gray sz i f st = Inr st1"
    and rest: "recognize_faces cv mdl gray sz (Suc i) faces st1 = Inr st'"
    by (auto split: sum.splits)
  from recognize_face_appends [OF one] Cons.IH [OF rest] show ?case by auto
qed

lemma recognize_faces_hd:
  assumes "recognize_faces cv mdl gray sz 0 faces (nms, []) = Inr st'"
  shows "snd st' = [] \<or> hd (snd st') = CHR ''{''"
proof (cases faces)
  case Nil
  with assms show ?thesis by auto
next
  case (Cons f rest)
  with assms obtain st1 where
    one: "recognize_face cv mdl gray sz 0 f (nms, []) = Inr st1"
    and more: "recognize_faces cv mdl gray sz (Suc 0) rest st1 = Inr st'"
    by (auto split: sum.splits)
  from recognize_face_appends [OF one] recognize_faces_appends [OF more] show ?thesis by auto
qed

lemma FaceRecognitionImage_stream_hd:
  assumes "FaceRecognitionImage_stream fs cv argv = Inr ssInfo"
  shows "ssInfo = [] \<or> \<not> isspace (hd ssInfo)"
proof -
  from assms obtain mdl gray sz faces nms st' where
    "recognize_faces cv mdl gray sz 0 faces (nms, []) = Inr st'" "ssInfo = snd st'"
    by (auto simp: FaceRecognitionImage_stream_def Let_def
             split: if_splits prod.splits option.splits list.splits sum.splits)
  with recognize_faces_hd not_isspace_brace show ?thesis by metis
qed

lemma up_to_space_cut:
  assumes "has_space ss"
  shows "(\<exists>rest. ss = up_to_space ss @ rest \<and> rest \<noteq> [] \<and> isspace (hd rest)) \<and>
         \<not> has_space (up_to_space ss)"
proof -
  let ?rest = "dropWhile (\<lambda>c. \<not> isspace c) ss"
  from assms have ne: "?rest \<noteq> []"
    by (auto simp: has_space_def list_ex_iff dropWhile_eq_Nil_conv)
  then have "isspace (hd ?rest)"
    using hd_dropWhile [of "\<lambda>c. \<not> isspace c" ss] by simp
  moreover have "ss = up_to_space ss @ ?rest"
    by (simp add: up_to_space_def)
  moreover have "\<not> has_space (up_to_space ss)"
    by (auto simp: has_space_def up_to_space_def list_ex_iff dest: set_takeWhileD)
  ultimately show ?thesis using ne by blast
qed

text \<open>
  C10. In both tools the line written to the information file is \<open>[\<close>, the first
  whitespace-delimited token of the result stream, \<open>]\<close> (and the end of line of
  \<open>endl\<close>). The stream of either tool is empty or begins with a character that is not
  whitespace, so that token is the stream up to its first whitespace character: it is
  \<open>[]\<close> for an empty stream, and for a stream with a whitespace character everything
  from the first one on is left out of the file.
\<close>

theorem info_file_is_first_token:
  "(FaceRecognitionImage_stream fs cv argv = Inr ssInfo \<longrightarrow>
      FaceRecognitionImage_main fs cv argv =
        (if fs_ofstream_open fs (argv ! 4)
         then (Exit 0, Some (argv ! 4, ''['' @ first_token ssInfo @ '']'' @ endl))
         else (Exit 1, None)) \<and>
      first_token ssInfo = up_to_space ssInfo) \<and>
   (length argv = 4 \<longrightarrow>
      Name2Protraits_main fs argv =
        (Exit 0,
         if fs_ofstream_open fs (argv ! 3)
         then Some (argv ! 3,
                    ''['' @ first_token (Name2Protraits_stream fs (argv ! 1) (argv ! 2)) @ '']'' @ endl)
         else None) \<and>
      first_token (Name2Protraits_stream fs (argv ! 1) (argv ! 2)) =
        up_to_space (Name2Protraits_stream fs (argv ! 1) (argv ! 2))) \<and>
   ''['' @ first_token [] @ '']'' = ''[]'' \<and>
   (has_space ss \<longrightarrow>
      (\<exists>rest. ss = up_to_space ss @ rest \<and> rest \<noteq> [] \<and> isspace (hd rest)) \<and>
      \<not> has_space (up_to_space ss))"
proof -
  have A: "FaceRecognitionImage_main fs cv argv =
        (if fs_ofstream_open fs (argv ! 4)
         then (Exit 0, Some (argv ! 4, ''['' @ first_token ssInfo @ '']'' @ endl))
         else (Exit 1, None)) \<and>
      first_token ssInfo = up_to_space ssInfo"
    if "FaceRecognitionImage_stream fs cv argv = Inr ssInfo"
    using that first_token_plain [OF FaceRecognitionImage_stream_hd [OF that]]
    by (simp add: FaceRecognitionImage_main_def Let_def)
  have B: "Name2Protraits_main fs argv =
        (Exit 0,
         if fs_ofstream_open fs (argv ! 3)
         then Some (argv ! 3,
                    ''['' @ first_token (Name2Protraits_stream fs (argv ! 1) (argv ! 2)) @ '']'' @ endl)
         else None) \<and>
      first_token (Name2Protraits_stream fs (argv ! 1) (argv ! 2)) =
        up_to_space (Name2Protraits_stream fs (argv ! 1) (argv ! 2))"
    if "length argv = 4"
    using that first_token_plain [OF Name2Protraits_stream_hd]
    by (simp add: Name2Protraits_main_def Let_def)
  have C: "''['' @ first_token [] @ '']'' = ''[]''"
    by (simp add: first_token_def)
  from A B C up_to_space_cut show ?thesis by blast
qed

theorem info_file_is_first_token_witness:
  "has_space (Name2Protraits_stream fs_space ''/my db'' ''bob'') \<and>
   \<not> has_space (up_to_space (Name2Protraits_stream fs_space ''/my db'' ''bob'')) \<and>
   Name2Protraits_main fs_space [''n2p'', ''/my db'', ''bob'', ''/out.json''] =
     (Exit 0, Some (''/out.json'', ''['' @ [dquote] @ ''/my'' @ '']'' @ endl)) \<and>
   FaceRecognitionImage_main fs_space (cv_const 0 [face_rect])
       [''fri'', ''c.xml'', ''/my db'', ''/in.jpg'', ''/out.json''] =
     (Exit 0, Some (''/out.json'',
                    ''['' @ ''{'' @ [dquote] @ ''prediction'' @ [dquote] @ '':'' @ [dquote] @ ''john'' @
                    '']'' @ endl))"
proof -
  let ?argvN = "[''n2p'', ''/my db'', ''bob'', ''/out.json'']"
  let ?argvF = "[''fri'', ''c.xml'', ''/my db'', ''/in.jpg'', ''/out.json'']"
  let ?cv = "cv_const 0 [face_rect]"
  let ?ssF = "projr (FaceRecognitionImage_stream fs_space ?cv ?argvF)"
  let ?ssN = "Name2Protraits_stream fs_space ''/my db'' ''bob''"
  have len: "length ?argvN = 4" by simp
  have opn: "fs_ofstream_open fs_space ''/out.json''" by code_simp
  have hs: "has_space ?ssN" by code_simp
  have tokN: "up_to_space ?ssN = [dquote] @ ''/my''"
    by code_simp
  have strF: "FaceRecognitionImage_stream fs_space ?cv ?argvF = Inr ?ssF" by code_simp
  have tokF: "up_to_space ?ssF =
                ''{'' @ [dquote] @ ''prediction'' @ [dquote] @ '':'' @ [dquote] @ ''john''"
    by code_simp
  note inst = info_file_is_first_token [of fs_space ?cv ?argvF ?ssF ?ssN]
  from inst [THEN conjunct1] strF opn tokF
  have F: "FaceRecognitionImage_main fs_space ?cv ?argvF =
     (Exit 0, Some (''/out.json'',
                    ''['' @ ''{'' @ [dquote] @ ''prediction'' @ [dquote] @ '':'' @ [dquote] @ ''john'' @
                    '']'' @ endl))"
    by simp
  from info_file_is_first_token [of fs_space ?cv ?argvN, THEN conjunct2, THEN conjunct1] len opn tokN
  have N: "Name2Protraits_main fs_space ?argvN =
     (Exit 0, Some (''/out.json'', ''['' @ [dquote] @ ''/my'' @ '']'' @ endl))"
    by simp
  from inst [THEN conjunct2, THEN conjunct2, THEN conjunct2] hs
  have C: "\<not> has_space (up_to_space ?ssN)" by blast
  from hs C N F show ?thesis by blast
qed

text \<open>
  C5, as the code has it. For an invocation with three arguments whose output file
  can be opened, the tool exits with 0. When the name is not found as a directory in
  the listing of \<open>protraits\<close> the file holds \<open>[]\<close>. When it is, the result stream is
  the comma-separated list of the quoted paths \<open>data_path/protraits/name/file\<close>, one for
  each visible regular file the listing of that directory reaches, in the order of the
  enumeration; and when no whitespace occurs in it, the file holds exactly that list
  between brackets.
\<close>

theorem Name2Protraits_paths:
  assumes "argv = [prog, dir_data, name, fn_info]"
      and "fs_ofstream_open fs fn_info"
      and "dir_usr = dir_data @ ''/protraits'' @ ''/'' @ name"
  shows "(\<not> protrait_dir_listed fs dir_data name \<longrightarrow>
            Name2Protraits_main fs argv = (Exit 0, Some (fn_info, ''[]'' @ endl))) \<and>
         (protrait_dir_listed fs dir_data name \<longrightarrow>
            Name2Protraits_stream fs dir_data name =
              join_commas (map (\<lambda>f. quoted (dir_usr @ ''/'' @ f)) (protrait_files fs dir_usr)) \<and>
            (\<not> has_space (Name2Protraits_stream fs dir_data name) \<longrightarrow>
               Name2Protraits_main fs argv =
                 (Exit 0,
                  Some (fn_info,
                        ''['' @ join_commas (map (\<lambda>f. quoted (dir_usr @ ''/'' @ f))
                                                 (protrait_files fs dir_usr)) @ '']'' @ endl))))"
proof -
  let ?ss = "Name2Protraits_stream fs dir_data name"
  have main: "Name2Protraits_main fs argv = (Exit 0, Some (fn_info, ''['' @ first_token ?ss @ '']'' @ endl))"
    using assms(1,2) by (simp add: Name2Protraits_main_def Let_def)
  have tok: "first_token ?ss = up_to_space ?ss"
    by (rule first_token_plain [OF Name2Protraits_stream_hd])
  have whole: "up_to_space ?ss = ?ss" if "\<not> has_space ?ss"
    using that by (simp add: has_space_def up_to_space_def list_ex_iff)
  have str: "?ss = join_commas (map (\<lambda>f. quoted (dir_usr @ ''/'' @ f)) (protrait_files fs dir_usr))"
    if "protrait_dir_listed fs dir_data name"
    using that by (simp add: Name2Protraits_stream_closed assms(3))
  have none: "?ss = []" if "\<not> protrait_dir_listed fs dir_data name"
    using that by (simp add: Name2Protraits_stream_closed)
  have "Name2Protraits_main fs argv = (Exit 0, Some (fn_info, ''[]'' @ endl))"
    if "\<not> protrait_dir_listed fs dir_data name"
    using main none [OF that] by (simp add: first_token_def)
  moreover have "Name2Protraits_main fs argv =
                 (Exit 0,
                  Some (fn_info,
                        ''['' @ join_commas (map (\<lambda>f. quoted (dir_usr @ ''/'' @ f))
                                                 (protrait_files fs dir_usr)) @ '']'' @ endl))"
    if "protrait_dir_listed fs dir_data name" "\<not> has_space ?ss"
    using main tok whole [OF that(2)] str [OF that(1)] by simp
  ultimately show ?thesis using str by blast
qed

theorem Name2Protraits_paths_witness:
  "protrait_dir_listed fs_protraits ''/db'' ''bob'' \<and>
   protrait_files fs_protraits ''/db/protraits/bob'' = [''p1.jpg'', ''p2.jpg''] \<and>
   Name2Protraits_main fs_protraits [''n2p'', ''/db'', ''bob'', ''/out.json''] =
     (Exit 0, Some (''/out.json'',
                    ''['' @ quoted ''/db/protraits/bob/p1.jpg'' @ '','' @
                            quoted ''/db/protraits/bob/p2.jpg'' @ '']'' @ endl)) \<and>
   \<not> protrait_dir_listed fs_protraits ''/db'' ''zed'' \<and>
   Name2Protraits_main fs_protraits [''n2p'', ''/db'', ''zed'', ''/out.json''] =
     (Exit 0, Some (''/out.json'', ''[]'' @ endl))"
proof -
  have opn: "fs_ofstream_open fs_protraits ''/out.json''" by code_simp
  have bob: "protrait_dir_listed fs_protraits ''/db'' ''bob''" by code_simp
  have zed: "\<not> protrait_dir_listed fs_protraits ''/db'' ''zed''" by code_simp
  have files: "protrait_files fs_protraits ''/db/protraits/bob'' = [''p1.jpg'', ''p2.jpg'']"
    by code_simp
  have nosp: "\<not> has_space (Name2Protraits_stream fs_protraits ''/db'' ''bob'')" by code_simp
  have pb: "''/db/protraits/bob'' = ''/db'' @ ''/protraits'' @ ''/'' @ ''bob''" by simp
  have pz: "''/db/protraits/zed'' = ''/db'' @ ''/protraits'' @ ''/'' @ ''zed''" by simp
  from Name2Protraits_paths [OF refl opn pb, of "''n2p''", THEN conjunct2] bob nosp files
  have B: "Name2Protraits_main fs_protraits [''n2p'', ''/db'', ''bob'', ''/out.json''] =
     (Exit 0, Some (''/out.json'',
                    ''['' @ quoted ''/db/protraits/bob/p1.jpg'' @ '','' @
                            quoted ''/db/protraits/bob/p2.jpg'' @ '']'' @ endl))"
    by simp
  from Name2Protraits_paths [OF refl opn pz, of "''n2p''", THEN conjunct1] zed
  have Z: "Name2Protraits_main fs_protraits [''n2p'', ''/db'', ''zed'', ''/out.json''] =
     (Exit 0, Some (''/out.json'', ''[]'' @ endl))"
    by simp
  from bob files B zed Z show ?thesis by blast
qed

text \<open>
  The claim as written fails for a relative data path and a directory with a hidden
  regular file: two regular-file entries, one path in the output, and not an absolute one.
\<close>

theorem Name2Protraits_paths_counterexample:
  "fs_opendir fs_relative ''db/protraits/bob'' = Some [''.'', ''..'', ''a.jpg'', ''.b.jpg''] \<and>
   is_regular_file fs_relative ''db/protraits/bob/a.jpg'' \<and>
   is_regular_file fs_relative ''db/protraits/bob/.b.jpg'' \<and>
   Name2Protraits_main fs_relative [''n2p'', ''db'', ''bob'', ''/out.json''] =
     (Exit 0, Some (''/out.json'', ''['' @ quoted ''db/protraits/bob/a.jpg'' @ '']'' @ endl))"
proof -
  have "fs_opendir fs_relative ''db/protraits/bob'' = Some [''.'', ''..'', ''a.jpg'', ''.b.jpg'']"
    by code_simp
  moreover have "is_regular_file fs_relative ''db/protraits/bob/a.jpg''" by code_simp
  moreover have "is_regular_file fs_relative ''db/protraits/bob/.b.jpg''" by code_simp
  moreover have "Name2Protraits_main fs_relative [''n2p'', ''db'', ''bob'', ''/out.json''] =
     (Exit 0, Some (''/out.json'', ''['' @ quoted ''db/protraits/bob/a.jpg'' @ '']'' @ endl))"
    by code_simp
  ultimately show ?thesis by blast
qed

section \<open>Doubles that are integers\<close>

lemma round_even_int: "round_even (of_int m) = m"
  by (simp add: round_even_def)

lemma binary64_pos_int:
  assumes "0 < n" and "n < 2 ^ 53"
  shows "binary64 (of_int n) = of_int n"
proof -
  have q: "quotient_of (of_int n :: rat) = (n, 1)"
    by simp
  have b1: "bitlen 1 = 1" by (simp add: bitlen_alt_def)
  let ?e = "bitlen n - 1"
  from bitlen_bounds [OF assms(1)] have lo: "2 ^ nat ?e \<le> n" by blast
  from assms(1) have ge: "0 \<le> ?e" by (auto simp: bitlen_alt_def)
  from assms(2) have "bitlen n \<le> 53" by (simp add: bitlen_le_iff_power)
  then have le: "?e \<le> 52" by simp
  have p: "pow2 ?e = 2 ^ nat ?e" using ge by (simp add: pow2_def)
  have "(2 :: rat) ^ nat ?e \<le> of_int n"
    using lo by (metis of_int_le_iff of_int_numeral of_int_power)
  then have ex: "exponent (of_int n) = ?e"
    by (simp add: exponent_def q b1 p)
  define k where "k = nat (52 - ?e)"
  have ulp: "pow2 (?e - 52) = 1 / 2 ^ k"
    using le by (auto simp: pow2_def k_def)
  have "(of_int n :: rat) / (1 / 2 ^ k) = of_int (n * 2 ^ k)" by simp
  then have r: "round_even (of_int n / (1 / 2 ^ k)) = n * 2 ^ k"
    by (simp only: round_even_int)
  have an: "\<bar>of_int n :: rat\<bar> = of_int n" using assms(1) by simp
  have sg: "sgn (of_int n :: rat) = 1" using assms(1) by simp
  have nz: "(of_int n :: rat) \<noteq> 0" using assms(1) by simp
  show ?thesis
    unfolding binary64_def Let_def an ex ulp r sg using nz by simp
qed

lemma binary64_neg: "binary64 (- r) = - binary64 r"
  by (simp add: binary64_def Let_def)

lemma binary64_int:
  assumes "\<bar>n\<bar> < 2 ^ 53"
  shows "binary64 (of_int n) = of_int n"
proof -
  consider "n = 0" | "0 < n" | "n < 0" by linarith
  then show ?thesis
  proof cases
    case 1
    then show ?thesis by (simp add: binary64_def)
  next
    case 2
    with assms show ?thesis by (simp add: binary64_pos_int)
  next
    case 3
    with assms have "binary64 (of_int (- n)) = of_int (- n)"
      by (intro binary64_pos_int) auto
    then show ?thesis using binary64_neg [of "of_int n"] by simp
  qed
qed

lemma binary64_nonneg: "0 \<le> r \<Longrightarrow> 0 \<le> binary64 r"
proof -
  assume r: "0 \<le> r"
  have p: "0 < pow2 e" for e by (simp add: pow2_def)
  have "0 \<le> round_even x" if "0 \<le> x" for x
    using that by (auto simp: round_even_def Let_def)
  moreover have "0 \<le> \<bar>r\<bar> / pow2 (exponent \<bar>r\<bar> - 52)"
    using p by (simp add: less_imp_le)
  ultimately have "0 \<le> round_even (\<bar>r\<bar> / pow2 (exponent \<bar>r\<bar> - 52))" by blast
  then show ?thesis
    using r p [of "exponent \<bar>r\<bar> - 52"]
    by (auto simp: binary64_def Let_def sgn_if less_imp_le)
qed

section \<open>The example session is one of FaceCollection\<close>



section \<open>The name of an unknown label\<close>

lemma map_subscript_missing:
  "map_find m k = None \<Longrightarrow> map_subscript m k = ([], map_insert (k, []) m)"
  by (simp add: map_subscript_def)

lemma after_face_names:
  "after_face cv cap now face_resized s = Inr s1 \<Longrightarrow>
   names s1 =
     (if saveFaceFlag s
      then map_insert (case map_find (name2label s) (expectName cap) of Some l \<Rightarrow> l | None \<Rightarrow> - 1,
                       expectName cap) (names s)
      else names s)"
  by (auto simp: after_face_def enroll_face_def Let_def split: if_splits option.splits)

lemma after_protrait_names:
  "after_protrait cap now original_resized face_i s1 = Inr s2 \<Longrightarrow> names s2 = names s1"
  by (auto simp: after_protrait_def enroll_protrait_def Let_def split: if_splits sum.splits)

lemma process_face_steps:
  assumes "crop gray face_i = Inr face"
      and "resize face (im_width cap, im_height cap) = Inr face_resized"
      and "cv_predict cv (model s) face_resized = (prediction, confidence)"
      and "after_face cv cap now face_resized s = Inr s1"
      and "after_protrait cap now original_resized face_i s1 = Inr s2"
  shows "process_face cv cap now original_resized gray face_i s =
           Inr (s2\<lparr>names := snd (map_subscript (names s2) prediction)\<rparr>,
                \<lparr>an_rect = scale_rect (invfscale_x cap) (invfscale_y cap) face_i,
                 an_name = fst (map_subscript (names s2) prediction),
                 an_confidence = confidence,
                 an_pos = (max (rect_x (scale_rect (invfscale_x cap) (invfscale_y cap) face_i) - 10) 0,
                           max (rect_y (scale_rect (invfscale_x cap) (invfscale_y cap) face_i) - 10) 0)\<rparr>)"
  using assms
  by (simp add: process_face_def Let_def tl_pt_def split: prod.splits)

lemma process_face_failure:
  assumes "crop gray face_i = Inr face"
      and "process_face cv cap now original_resized gray face_i s = Inl e"
  shows "resize face (im_width cap, im_height cap) = Inl e \<or>
         (\<exists>face_resized. resize face (im_width cap, im_height cap) = Inr face_resized \<and>
            (after_face cv cap now face_resized s = Inl e \<or>
             (\<exists>s1. after_face cv cap now face_resized s = Inr s1 \<and>
                   after_protrait cap now original_resized face_i s1 = Inl e)))"
  using assms
  by (auto simp: process_face_def Let_def split: sum.splits prod.splits)

text \<open>
  C3, as the code has it. A face is a rectangle that can be cut out of the frame. In the
  batch path, a prediction that is no key of the registry makes \<open>names[prediction]\<close>
  insert the label with the empty string, and the result of the face carries the empty
  name. In the live path the lookup comes after the two enrolment blocks, whatever the
  pending flags are: when both blocks return, the registry at the lookup is the loaded
  one, with the entry of the enrolment added when \<open>saveFaceFlag\<close> was pending; the face
  always has a result, its name is what \<open>operator[]\<close> gives on that registry, and it is
  the empty string when the prediction is no key of it. The lookup is never what fails:
  a failure of the live path is one of \<open>resize\<close> or of the enrolment blocks.
\<close>

theorem unknown_label_gives_empty_name:
  assumes "crop gray face_i = Inr face"
  shows "(resize face im_size = Inr face_resized \<longrightarrow>
          cv_predict cv mdl face_resized = (prediction, confidence) \<longrightarrow>
          map_find (fst st) prediction = None \<longrightarrow>
            recognize_face cv mdl gray im_size i face_i st =
              Inr (map_insert (prediction, []) (fst st),
                   snd st @ (if 0 < i then '','' else []) @ json_face cv [] confidence face_i)) \<and>
         (resize face (im_width cap, im_height cap) = Inr face_resized \<longrightarrow>
          cv_predict cv (model s) face_resized = (prediction, confidence) \<longrightarrow>
          after_face cv cap now face_resized s = Inr s1 \<longrightarrow>
          after_protrait cap now original_resized face_i s1 = Inr s2 \<longrightarrow>
            names s2 =
              (if saveFaceFlag s
               then map_insert (case map_find (name2label s) (expectName cap) of
                                  Some l \<Rightarrow> l | None \<Rightarrow> - 1,
                                expectName cap) (names s)
               else names s) \<and>
            (\<exists>a. process_face cv cap now original_resized gray face_i s =
                    Inr (s2\<lparr>names := snd (map_subscript (names s2) prediction)\<rparr>, a) \<and>
                  an_name a = fst (map_subscript (names s2) prediction)) \<and>
            (map_find (names s2) prediction = None \<longrightarrow>
               (\<exists>a. process_face cv cap now original_resized gray face_i s =
                       Inr (s2\<lparr>names := map_insert (prediction, []) (names s2)\<rparr>, a) \<and>
                     an_name a = []))) \<and>
         (process_face cv cap now original_resized gray face_i s = Inl e \<longrightarrow>
            resize face (im_width cap, im_height cap) = Inl e \<or>
            (\<exists>face_resized. resize face (im_width cap, im_height cap) = Inr face_resized \<and>
               (after_face cv cap now face_resized s = Inl e \<or>
                (\<exists>s1. after_face cv cap now face_resized s = Inr s1 \<and>
                      after_protrait cap now original_resized face_i s1 = Inl e))))"
proof -
  have A: "recognize_face cv mdl gray im_size i face_i st =
              Inr (map_insert (prediction, []) (fst st),
                   snd st @ (if 0 < i then '','' else []) @ json_face cv [] confidence face_i)"
    if "resize face im_size = Inr face_resized"
       "cv_predict cv mdl face_resized = (prediction, confidence)"
       "map_find (fst st) prediction = None"
    using that assms by (simp add: recognize_face_def map_subscript_missing)
  have B: "names s2 =
              (if saveFaceFlag s
               then map_insert (case map_find (name2label s) (expectName cap) of
                                  Some l \<Rightarrow> l | None \<Rightarrow> - 1,
                                expectName cap) (names s)
               else names s) \<and>
            (\<exists>a. process_face cv cap now original_resized gray face_i s =
                    Inr (s2\<lparr>names := snd (map_subscript (names s2) prediction)\<rparr>, a) \<and>
                  an_name a = fst (map_subscript (names s2) prediction)) \<and>
            (map_find (names s2) prediction = None \<longrightarrow>
               (\<exists>a. process_face cv cap now original_resized gray face_i s =
                       Inr (s2\<lparr>names := map_insert (prediction, []) (names s2)\<rparr>, a) \<and>
                     an_name a = []))"
    if r: "resize face (im_width cap, im_height cap) = Inr face_resized"
       and p: "cv_predict cv (model s) face_resized = (prediction, confidence)"
       and f: "after_face cv cap now face_resized s = Inr s1"
       and g: "after_protrait cap now original_resized face_i s1 = Inr s2"
  proof -
    note run = process_face_steps [OF assms r p f g]
    have n: "names s2 =
              (if saveFaceFlag s
               then map_insert (case map_find (name2label s) (expectName cap) of
                                  Some l \<Rightarrow> l | None \<Rightarrow> - 1,
                                expectName cap) (names s)
               else names s)"
      using after_face_names [OF f] after_protrait_names [OF g] by simp
    from run have known: "\<exists>a. process_face cv cap now original_resized gray face_i s =
                    Inr (s2\<lparr>names := snd (map_subscript (names s2) prediction)\<rparr>, a) \<and>
                  an_name a = fst (map_subscript (names s2) prediction)"
      by simp
    have unknown: "\<exists>a. process_face cv cap now original_resized gray face_i s =
                       Inr (s2\<lparr>names := map_insert (prediction, []) (names s2)\<rparr>, a) \<and>
                     an_name a = []"
      if "map_find (names s2) prediction = None"
      using run by (simp add: map_subscript_missing [OF that])
    from n known unknown show ?thesis by blast
  qed
  from A B process_face_failure [OF assms] show ?thesis by blast
qed

text \<open>
  The session after the space key, where an enrolment of carol is pending: the unknown
  prediction 7 gives the empty name and the entry of 7 with the empty string; the prediction \<open>-1\<close> is
  looked up after the enrolment has registered \<open>-1 \<mapsto> carol\<close>, so it is a known label at
  that point and the name is carol.
\<close>

theorem unknown_label_gives_empty_name_witness:
  "map_find (names session0) 7 = None \<and>
   recognize_face (cv_const 7 []) ([], []) detect_frame (64, 64) 0 face_rect (names session0, []) =
     Inr ([(0, ''alice''), (1, ''bob''), (7, [])], json_face (cv_const 7 []) [] () face_rect) \<and>
   saveFaceFlag session1 \<and> map_find (names session1) 7 = None \<and>
   an_name (snd (projr (process_face (cv_const 7 []) cap_carol 0
                          detect_frame detect_frame face_rect session1))) = [] \<and>
   map_find (names (fst (projr (process_face (cv_const 7 []) cap_carol 0
                                  detect_frame detect_frame face_rect session1)))) 7 = Some [] \<and>
   an_name (snd (projr (process_face (cv_const (- 1) []) cap_carol 0
                          detect_frame detect_frame face_rect session1))) = ''carol''"
proof -
  let ?cv = "cv_const 7 [] :: (Mat list \<times> int list, unit) opencv"
  let ?cw = "cv_const (- 1) [] :: (Mat list \<times> int list, unit) opencv"
  let ?face = "\<lparr>rows = 60, cols = 50\<rparr>"
  let ?fr = "\<lparr>rows = 64, cols = 64\<rparr>"
  let ?s1 = "projr (after_face ?cv cap_carol 0 ?fr session1)"
  let ?s2 = "projr (after_protrait cap_carol 0 detect_frame face_rect ?s1)"
  have c: "crop detect_frame face_rect = Inr ?face" by code_simp
  have r: "resize ?face (64, 64) = Inr ?fr" by code_simp
  have r': "resize ?face (im_width cap_carol, im_height cap_carol) = Inr ?fr" by code_simp
  have p: "cv_predict ?cv mdl ?fr = (7, ())" for mdl by (simp add: cv_const_def)
  have q: "cv_predict ?cw mdl ?fr = (- 1, ())" for mdl by (simp add: cv_const_def)
  have n: "map_find (names session0) 7 = None" by code_simp
  have ins: "map_insert (7, []) (names session0) = [(0, ''alice''), (1, ''bob''), (7, [])]"
    by code_simp
  have fl: "saveFaceFlag session1" by code_simp
  have n1: "map_find (names session1) 7 = None" by code_simp
  have f: "after_face ?cv cap_carol 0 ?fr session1 = Inr ?s1" by code_simp
  have g: "after_protrait cap_carol 0 detect_frame face_rect ?s1 = Inr ?s2" by code_simp
  have f': "after_face ?cw cap_carol 0 ?fr session1 = Inr ?s1" by code_simp
  have n2: "map_find (names ?s2) 7 = None" by code_simp
  have k2: "fst (map_subscript (names ?s2) (- 1)) = ''carol''" by code_simp
  note inst = unknown_label_gives_empty_name [OF c, where face_resized = ?fr]
  from inst [where cv = ?cv and im_size = "(64, 64)" and mdl = "([], [])" and prediction = 7
                and confidence = "()" and st = "(names session0, [])" and i = 0, THEN conjunct1]
       r p n ins
  have A: "recognize_face ?cv ([], []) detect_frame (64, 64) 0 face_rect (names session0, []) =
     Inr ([(0, ''alice''), (1, ''bob''), (7, [])], json_face ?cv [] () face_rect)"
    by simp
  from inst [where cv = ?cv and cap = cap_carol and s = session1 and prediction = 7
                and confidence = "()" and now = 0 and ?s1.0 = ?s1 and ?s2.0 = ?s2
                and original_resized = detect_frame,
             THEN conjunct2, THEN conjunct1] r' p f g n2
  obtain a where
    B: "process_face ?cv cap_carol 0 detect_frame detect_frame face_rect session1 =
          Inr (?s2\<lparr>names := map_insert (7, []) (names ?s2)\<rparr>, a)"
    and B': "an_name a = []"
    by blast
  have B'': "map_find (map_insert (7, []) (names ?s2)) 7 = Some []"
    using n2 by (simp add: map_find_insert)
  from inst [where cv = ?cw and cap = cap_carol and s = session1 and prediction = "- 1"
                and confidence = "()" and now = 0 and ?s1.0 = ?s1 and ?s2.0 = ?s2
                and original_resized = detect_frame,
             THEN conjunct2, THEN conjunct1] r' q f' g
  obtain b where
    C: "process_face ?cw cap_carol 0 detect_frame detect_frame face_rect session1 =
          Inr (?s2\<lparr>names := snd (map_subscript (names ?s2) (- 1))\<rparr>, b)"
    and C': "an_name b = fst (map_subscript (names ?s2) (- 1))"
    by blast
  from n A fl n1 B B' B'' C C' k2 show ?thesis by simp
qed

section \<open>The reported rectangle\<close>

lemma crop_inside:
  "inside face_i gray \<Longrightarrow> crop gray face_i = Inr \<lparr>rows = rect_height face_i, cols = rect_width face_i\<rparr>"
  by (simp add: crop_def)

lemma resize_nonempty:
  "0 < rows src * cols src \<Longrightarrow> \<exists>dst. resize src dsize = Inr dst"
  by (simp add: resize_def)

lemma process_face_rect:
  "process_face cv cap now original_resized gray face_i s = Inr (s', a) \<Longrightarrow>
   an_rect a = scale_rect (invfscale_x cap) (invfscale_y cap) face_i"
  by (auto simp: process_face_def Let_def split: sum.splits prod.splits if_splits)

lemma d_of_int_exact: "\<bar>n\<bar> < 2 ^ 31 \<Longrightarrow> d_of_int n = of_int n"
proof -
  assume "\<bar>n\<bar> < 2 ^ 31"
  then have "\<bar>n\<bar> < 2 ^ 53" by simp
  then show ?thesis unfolding d_of_int_def by (rule binary64_int)
qed

lemma scaled_field:
  assumes "0 \<le> n" and "n < 2 ^ 31" and "0 \<le> sc"
  shows "d_to_int (d_mul (d_of_int n) sc) = \<lfloor>binary64 (of_int n * sc)\<rfloor>"
proof -
  from assms(1,2) have "d_of_int n = of_int n" by (simp add: d_of_int_exact)
  moreover from assms(1,3) have "0 \<le> binary64 (of_int n * sc)"
    by (simp add: binary64_nonneg)
  ultimately show ?thesis by (simp add: d_to_int_def d_mul_def)
qed

lemma inv_scale_explicit:
  assumes "0 \<le> cols frame" "cols frame < 2 ^ 31" "0 \<le> rows frame" "rows frame < 2 ^ 31"
  shows "inv_scale frame =
           (binary64 (of_int (cols frame) / 320), binary64 (of_int (rows frame) / 240))"
proof -
  have "d_of_int 320 = 320" "d_of_int 240 = 240"
    using d_of_int_exact [of 320] d_of_int_exact [of 240] by simp_all
  moreover have "d_of_int (cols frame) = of_int (cols frame)"
    "d_of_int (rows frame) = of_int (rows frame)"
    using assms by (simp_all add: d_of_int_exact)
  ultimately show ?thesis
    by (simp add: inv_scale_def d_div_def STD_DETECT_FRAME_WIDTH_def STD_DETECT_FRAME_HEIGHT_def)
qed

text \<open>
  C7, as the code has it. For a rectangle inside the frame, the batch path writes the
  four fields of the detector's rectangle unchanged, and does write them when the
  rectangle is not empty. In the live path the factors are the binary64 quotients of
  the frame size by 320 and 240, and every reported field is the binary64 product of
  the detector's field and its factor, truncated to an \<open>int\<close>: the reported rectangle
  is not the product itself.
\<close>

theorem reported_bounding_box:
  assumes "inside face_i gray"
  shows "(recognize_face cv mdl gray im_size i face_i st = Inr st' \<longrightarrow>
            (\<exists>strName confidence.
               snd st' =
                 snd st @ (if 0 < i then '','' else []) @
                 ''{'' @ quoted ''prediction'' @ '':'' @ quoted strName @ '','' @
                 quoted ''confidence'' @ '':'' @ cv_show cv confidence @ '','' @
                 quoted ''position'' @ '':{'' @
                   quoted ''x'' @ '':'' @ show_int (rect_x face_i) @ '','' @
                   quoted ''y'' @ '':'' @ show_int (rect_y face_i) @ ''},'' @
                 quoted ''size'' @ '':{'' @
                   quoted ''width'' @ '':'' @ show_int (rect_width face_i) @ '','' @
                   quoted ''height'' @ '':'' @ show_int (rect_height face_i) @ ''}}'')) \<and>
         (0 < rect_width face_i * rect_height face_i \<longrightarrow>
            (\<exists>st'. recognize_face cv mdl gray im_size i face_i st = Inr st')) \<and>
         (process_face cv' cap now original_resized gray face_i s = Inr (s', a) \<longrightarrow>
          (invfscale_x cap, invfscale_y cap) = inv_scale frame \<longrightarrow>
          0 \<le> cols frame \<longrightarrow> cols frame < 2 ^ 31 \<longrightarrow> 0 \<le> rows frame \<longrightarrow> rows frame < 2 ^ 31 \<longrightarrow>
          cols gray < 2 ^ 31 \<longrightarrow> rows gray < 2 ^ 31 \<longrightarrow>
            invfscale_x cap = binary64 (of_int (cols frame) / 320) \<and>
            invfscale_y cap = binary64 (of_int (rows frame) / 240) \<and>
            an_rect a =
              \<lparr>rect_x = \<lfloor>binary64 (of_int (rect_x face_i) * invfscale_x cap)\<rfloor>,
               rect_y = \<lfloor>binary64 (of_int (rect_y face_i) * invfscale_y cap)\<rfloor>,
               rect_width = \<lfloor>binary64 (of_int (rect_width face_i) * invfscale_x cap)\<rfloor>,
               rect_height = \<lfloor>binary64 (of_int (rect_height face_i) * invfscale_y cap)\<rfloor>\<rparr>)"
proof -
  let ?face = "\<lparr>rows = rect_height face_i, cols = rect_width face_i\<rparr>"
  have c: "crop gray face_i = Inr ?face" by (rule crop_inside [OF assms])
  have json: "json_face cv strName confidence face_i =
                   ''{'' @ quoted ''prediction'' @ '':'' @ quoted strName @ '','' @
                   quoted ''confidence'' @ '':'' @ cv_show cv confidence @ '','' @
                   quoted ''position'' @ '':{'' @
                     quoted ''x'' @ '':'' @ show_int (rect_x face_i) @ '','' @
                     quoted ''y'' @ '':'' @ show_int (rect_y face_i) @ ''},'' @
                   quoted ''size'' @ '':{'' @
                     quoted ''width'' @ '':'' @ show_int (rect_width face_i) @ '','' @
                     quoted ''height'' @ '':'' @ show_int (rect_height face_i) @ ''}}''"
    for strName confidence
    by (simp add: json_face_def quoted_def tl_pt_def size_of_def)
  have A: "\<exists>strName confidence.
               snd st' =
                 snd st @ (if 0 < i then '','' else []) @
                 ''{'' @ quoted ''prediction'' @ '':'' @ quoted strName @ '','' @
                 quoted ''confidence'' @ '':'' @ cv_show cv confidence @ '','' @
                 quoted ''position'' @ '':{'' @
                   quoted ''x'' @ '':'' @ show_int (rect_x face_i) @ '','' @
                   quoted ''y'' @ '':'' @ show_int (rect_y face_i) @ ''},'' @
                 quoted ''size'' @ '':{'' @
                   quoted ''width'' @ '':'' @ show_int (rect_width face_i) @ '','' @
                   quoted ''height'' @ '':'' @ show_int (rect_height face_i) @ ''}}''"
    if run: "recognize_face cv mdl gray im_size i face_i st = Inr st'"
  proof -
    from run c obtain strName confidence where
      "snd st' = snd st @ (if 0 < i then '','' else []) @ json_face cv strName confidence face_i"
      by (auto simp: recognize_face_def Let_def split: sum.splits prod.splits)
    then show ?thesis
      by (intro exI [where x = strName] exI [where x = confidence]) (simp only: json)
  qed
  have B: "\<exists>st'. recognize_face cv mdl gray im_size i face_i st = Inr st'"
    if "0 < rect_width face_i * rect_height face_i"
  proof -
    from that have "0 < rows ?face * cols ?face" by (simp add: mult.commute)
    from resize_nonempty [OF this] obtain fr where "resize ?face im_size = Inr fr" by blast
    then show ?thesis
      by (simp add: recognize_face_def c Let_def split: prod.splits)
  qed
  have C: "invfscale_x cap = binary64 (of_int (cols frame) / 320) \<and>
            invfscale_y cap = binary64 (of_int (rows frame) / 240) \<and>
            an_rect a =
              \<lparr>rect_x = \<lfloor>binary64 (of_int (rect_x face_i) * invfscale_x cap)\<rfloor>,
               rect_y = \<lfloor>binary64 (of_int (rect_y face_i) * invfscale_y cap)\<rfloor>,
               rect_width = \<lfloor>binary64 (of_int (rect_width face_i) * invfscale_x cap)\<rfloor>,
               rect_height = \<lfloor>binary64 (of_int (rect_height face_i) * invfscale_y cap)\<rfloor>\<rparr>"
    if run: "process_face cv' cap now original_resized gray face_i s = Inr (s', a)"
      and sc: "(invfscale_x cap, invfscale_y cap) = inv_scale frame"
      and fr: "0 \<le> cols frame" "cols frame < 2 ^ 31" "0 \<le> rows frame" "rows frame < 2 ^ 31"
      and gr: "cols gray < 2 ^ 31" "rows gray < 2 ^ 31"
  proof -
    from sc inv_scale_explicit [OF fr]
    have sx: "invfscale_x cap = binary64 (of_int (cols frame) / 320)"
      and sy: "invfscale_y cap = binary64 (of_int (rows frame) / 240)"
      by simp_all
    from fr have px: "0 \<le> invfscale_x cap" and py: "0 \<le> invfscale_y cap"
      unfolding sx sy by (simp_all add: binary64_nonneg)
    from assms gr have bx: "0 \<le> rect_x face_i" "rect_x face_i < 2 ^ 31"
      and bw: "0 \<le> rect_width face_i" "rect_width face_i < 2 ^ 31"
      and by': "0 \<le> rect_y face_i" "rect_y face_i < 2 ^ 31"
      and bh: "0 \<le> rect_height face_i" "rect_height face_i < 2 ^ 31"
      by (auto simp: inside_def)
    from process_face_rect [OF run]
    have "an_rect a =
              \<lparr>rect_x = \<lfloor>binary64 (of_int (rect_x face_i) * invfscale_x cap)\<rfloor>,
               rect_y = \<lfloor>binary64 (of_int (rect_y face_i) * invfscale_y cap)\<rfloor>,
               rect_width = \<lfloor>binary64 (of_int (rect_width face_i) * invfscale_x cap)\<rfloor>,
               rect_height = \<lfloor>binary64 (of_int (rect_height face_i) * invfscale_y cap)\<rfloor>\<rparr>"
      by (simp add: scale_rect_def scaled_field [OF bx px] scaled_field [OF bw px]
                    scaled_field [OF by' py] scaled_field [OF bh py])
    with sx sy show ?thesis by blast
  qed
  from A B C show ?thesis by blast
qed

text \<open>
  A 224 by 168 frame: the factor is the double nearest to 0.7, the product with 90 is
  rounded to a double just below 63, and the reported coordinate is 62.
\<close>

theorem reported_bounding_box_witness:
  "inside wide_rect detect_frame \<and>
   (invfscale_x cap_small, invfscale_y cap_small) = inv_scale small_frame \<and>
   invfscale_x cap_small = binary64 (224 / 320) \<and>
   an_rect (snd (projr (process_face cv_demo cap_small 0
                          detect_frame detect_frame wide_rect session0))) =
     \<lparr>rect_x = 62, rect_y = 2, rect_width = 35, rect_height = 42\<rparr>"
proof -
  let ?run = "process_face cv_demo cap_small 0 detect_frame detect_frame wide_rect session0"
  have i: "inside wide_rect detect_frame" by code_simp
  have run: "?run = Inr (fst (projr ?run), snd (projr ?run))" by code_simp
  have sc: "(invfscale_x cap_small, invfscale_y cap_small) = inv_scale small_frame"
    by code_simp
  have dims: "cols small_frame = 224" "rows small_frame = 168"
    "cols detect_frame = 320" "rows detect_frame = 240"
    by (simp_all add: small_frame_def detect_frame_def STD_DETECT_FRAME_WIDTH_def
                      STD_DETECT_FRAME_HEIGHT_def)
  have vals: "\<lfloor>binary64 (of_int (rect_x wide_rect) * invfscale_x cap_small)\<rfloor> = 62"
    "\<lfloor>binary64 (of_int (rect_y wide_rect) * invfscale_y cap_small)\<rfloor> = 2"
    "\<lfloor>binary64 (of_int (rect_width wide_rect) * invfscale_x cap_small)\<rfloor> = 35"
    "\<lfloor>binary64 (of_int (rect_height wide_rect) * invfscale_y cap_small)\<rfloor> = 42"
    by code_simp+
  from reported_bounding_box [OF i, where cv' = cv_demo and cap = cap_small and now = 0
         and original_resized = detect_frame and s = session0
         and s' = "fst (projr ?run)" and a = "snd (projr ?run)" and frame = small_frame,
         THEN conjunct2, THEN conjunct2] run sc dims vals
  have "invfscale_x cap_small = binary64 (224 / 320) \<and>
        an_rect (snd (projr ?run)) = \<lparr>rect_x = 62, rect_y = 2, rect_width = 35, rect_height = 42\<rparr>"
    by simp
  with i sc show ?thesis by blast
qed

text \<open>
  The claim as written fails on a 480 by 360 frame: the factor is 1.5, the detector's
  \<open>x = 1\<close> gives the product 1.5, and the reported \<open>x\<close> is 1.
\<close>

theorem reported_bounding_box_counterexample:
  "inside face_rect detect_frame \<and>
   rect_x face_rect = 1 \<and>
   (invfscale_x cap_carol, invfscale_y cap_carol) = inv_scale camera_frame \<and>
   invfscale_x cap_carol = 3 / 2 \<and>
   d_mul (d_of_int (rect_x face_rect)) (invfscale_x cap_carol) = 3 / 2 \<and>
   rect_x (an_rect (snd (projr (process_face cv_demo cap_carol 0
                                  detect_frame detect_frame face_rect session0)))) = 1 \<and>
   (of_int 1 :: rat) \<noteq> 3 / 2"
proof -
  have "inside face_rect detect_frame" by code_simp
  moreover have "rect_x face_rect = 1" by code_simp
  moreover have "(invfscale_x cap_carol, invfscale_y cap_carol) = inv_scale camera_frame"
    by code_simp
  moreover have "invfscale_x cap_carol = 3 / 2" by code_simp
  moreover have "d_mul (d_of_int (rect_x face_rect)) (invfscale_x cap_carol) = 3 / 2"
    by code_simp
  moreover have "rect_x (an_rect (snd (projr (process_face cv_demo cap_carol 0
                                  detect_frame detect_frame face_rect session0)))) = 1"
    by code_simp
  moreover have "(of_int 1 :: rat) \<noteq> 3 / 2" by simp
  ultimately show ?thesis by blast
qed

section \<open>Enrolment of a new name\<close>



lemma map_insert_present: "map_find m k \<noteq> None \<Longrightarrow> map_insert (k, v) m = m"
  by (auto simp: map_insert_def split: option.splits)










lemma after_face_idle: "\<not> saveFaceFlag s \<Longrightarrow> after_face cv cap now fr s = Inr s"
  by (simp add: after_face_def)





















end
